theory Spec2Isabelle
  imports Main "HOL-Library.Sublist" "HOL-Library.AList" "HOL-Library.Word"
begin

section \<open>JavaScript values used by the launcher\<close>

text \<open>
  Strings are lists of characters. Every string the launcher inspects (platform and
  architecture names, version numbers, URLs, path names) is ASCII, and the string
  operations below are the ASCII behaviour of the JavaScript methods of the same name.
\<close>

datatype js_error =
    Error string
  | AssertionError string
  | TypeError string
  | SystemError string string

text \<open>
  \<open>Error m\<close> is \<open>new Error(m)\<close>; \<open>AssertionError e\<close> is the failure of \<open>assert(e)\<close>, carrying
  the text of the asserted expression; \<open>TypeError m\<close> is the engine's error for a method call on
  \<open>undefined\<close>; \<open>SystemError code path\<close> is an error of the \<open>fs\<close> module (\<open>ENOENT\<close>, \<open>ENOTDIR\<close>, ...).
\<close>

definition startsWith :: "string \<Rightarrow> string \<Rightarrow> bool" where
  "startsWith s p = prefix p s"

definition endsWith :: "string \<Rightarrow> string \<Rightarrow> bool" where
  "endsWith s p = suffix p s"

definition upper_table :: "(char \<times> char) list" where
  "upper_table = zip ''abcdefghijklmnopqrstuvwxyz'' ''ABCDEFGHIJKLMNOPQRSTUVWXYZ''"

definition toUpperCase :: "string \<Rightarrow> string" where
  "toUpperCase s = map (\<lambda>c. case map_of upper_table c of Some u \<Rightarrow> u | None \<Rightarrow> c) s"

text \<open>
  The text of an error inside a template string: for \<open>new Error(m)\<close> it is \<open>Error:\<close> and the
  message. For the other errors the exact wording of the engine is not modelled; the source
  never inspects it.
\<close>

definition toString :: "js_error \<Rightarrow> string" where
  "toString e =
     (case e of
        Error m \<Rightarrow> ''Error: '' @ m
      | AssertionError x \<Rightarrow> ''AssertionError [ERR_ASSERTION]: assert('' @ x @ '')''
      | TypeError m \<Rightarrow> ''TypeError: '' @ m
      | SystemError code p \<Rightarrow> ''Error: '' @ code @ '', '' @ p)"

text \<open>
  \<open>s.split(sep)\<close> for a non-empty separator: the separator is searched from the left, and
  the pieces between its occurrences are returned (always at least one piece). The source
  calls it with \<open>path.sep\<close>, \<open>path.delimiter\<close> and \<open>'/v'\<close> only.
\<close>

function str_split :: "string \<Rightarrow> string \<Rightarrow> string list" where
  "str_split sep [] = [[]]"
| "str_split sep (c # cs) =
     (if sep \<noteq> [] \<and> prefix sep (c # cs)
      then [] # str_split sep (drop (length sep) (c # cs))
      else (case str_split sep cs of
              [] \<Rightarrow> [[c]]
            | r # rs \<Rightarrow> (c # r) # rs))"
  by pat_completeness auto
termination
  by (relation "measure (\<lambda>(sep, s). length s)") auto

text \<open>\<open>xs.join(sep)\<close> of an array of strings.\<close>

fun array_join :: "string \<Rightarrow> string list \<Rightarrow> string" where
  "array_join sep [] = []"
| "array_join sep [x] = x"
| "array_join sep (x # y # ys) = x @ sep @ array_join sep (y # ys)"

text \<open>Decimal rendering of a number in a template string.\<close>

fun show_nat :: "nat \<Rightarrow> string" where
  "show_nat n =
     (if n < 10 then [''0123456789'' ! n]
      else show_nat (n div 10) @ [''0123456789'' ! (n mod 10)])"

declare show_nat.simps [simp del]

section \<open>The path module (POSIX)\<close>

text \<open>
  Node's \<open>path\<close> module on a POSIX host: \<open>path.sep\<close> is \<open>/\<close> and \<open>path.delimiter\<close> is \<open>:\<close>.
  \<open>normalizeString\<close> works on the segments between separators: empty segments and \<open>.\<close>
  are dropped, \<open>..\<close> removes the segment before it, or is kept when there is none and the
  path is relative.
\<close>

definition path_sep :: string where
  "path_sep = ''/''"

definition path_delimiter :: string where
  "path_delimiter = '':''"

text \<open>
  On a Windows host \<open>path.sep\<close> is a backslash and \<open>path.delimiter\<close> is \<open>;\<close>. Only these two
  constants of the Windows \<open>path\<close> module are modelled.
\<close>

definition win32_sep :: string where
  "win32_sep = [CHR 0x5C]"

definition win32_delimiter :: string where
  "win32_delimiter = '';''"

definition isAbsolute :: "string \<Rightarrow> bool" where
  "isAbsolute p = (p \<noteq> [] \<and> hd p = CHR ''/'')"

definition norm_step :: "bool \<Rightarrow> string list \<Rightarrow> string \<Rightarrow> string list" where
  "norm_step allowAboveRoot res seg =
     (if seg = [] \<or> seg = ''.'' then res
      else if seg = ''..'' then
        (if res \<noteq> [] \<and> last res \<noteq> ''..'' then butlast res
         else if allowAboveRoot then res @ [''..'']
         else res)
      else res @ [seg])"

definition normalizeString :: "string \<Rightarrow> bool \<Rightarrow> string" where
  "normalizeString p allowAboveRoot =
     array_join path_sep (foldl (norm_step allowAboveRoot) [] (str_split path_sep p))"

definition path_normalize :: "string \<Rightarrow> string" where
  "path_normalize p =
     (if p = [] then ''.''
      else
        let absolute = (hd p = CHR ''/'');
            trailingSeparator = (last p = CHR ''/'');
            q = normalizeString p (\<not> absolute)
        in if q = [] then (if absolute then ''/'' else if trailingSeparator then ''./'' else ''.'')
           else (if absolute then ''/'' else []) @ q @ (if trailingSeparator then ''/'' else []))"

definition path_join :: "string list \<Rightarrow> string" where
  "path_join args =
     (let joined = filter (\<lambda>a. a \<noteq> []) args
      in if joined = [] then ''.'' else path_normalize (array_join ''/'' joined))"

text \<open>
  \<open>path.dirname\<close> scans from the end down to index 1: trailing separators are skipped, then
  the name, and the path is cut at the separator before the name.
\<close>

definition path_dirname :: "string \<Rightarrow> string" where
  "path_dirname p =
     (if p = [] then ''.''
      else
        let hasRoot = (hd p = CHR ''/'');
            r = dropWhile (\<lambda>c. c \<noteq> CHR ''/'') (dropWhile (\<lambda>c. c = CHR ''/'') (rev (tl p)))
        in if r = [] then (if hasRoot then ''/'' else ''.'')
           else if hasRoot \<and> length r = 1 then ''//''
           else take (length r) p)"

section \<open>The file system\<close>

text \<open>
  The file system is a table from the location of an object (the names from the root
  directory down to it) to the object: a regular file with its bytes, or a directory. The
  root directory is the empty location and always exists. The order of the table is the order
  in which \<open>readdirSync\<close> lists names. Symbolic links, permission bits and other processes are
  outside the model; \<open>process.cwd()\<close> is the location \<open>cwd\<close>. A name is listed as it was
  written, which is what a file system does with ASCII names; the re-encoding of other names
  is outside the model.
\<close>

datatype node = File "8 word list" | Directory

record world =
  files :: "(string list \<times> node) list"
  cwd :: "string list"
  requests :: "string list"
  console :: "string list"

text \<open>
  \<open>requests\<close> is the list of URLs for which \<open>client.get\<close> has been called, oldest first, and
  \<open>console\<close> the lines written by \<open>console.info\<close>.
\<close>

definition get_node :: "(string list \<times> node) list \<Rightarrow> string list \<Rightarrow> node option" where
  "get_node fs loc = (if loc = [] then Some Directory else map_of fs loc)"

definition children :: "(string list \<times> node) list \<Rightarrow> string list \<Rightarrow> string list" where
  "children fs loc = map (\<lambda>e. last (fst e)) (filter (\<lambda>e. fst e \<noteq> [] \<and> butlast (fst e) = loc) fs)"

text \<open>
  Path resolution as the operating system does it, one component at a time from a starting
  directory: every component is looked up in a directory (a file in the middle of a path
  fails), empty components and \<open>.\<close> stay, \<open>..\<close> goes to the parent (the root is its own parent).
\<close>

fun walk :: "(string list \<times> node) list \<Rightarrow> string list \<Rightarrow> string list \<Rightarrow> string list option" where
  "walk fs cur [] = Some cur"
| "walk fs cur (c # cs) =
     (if get_node fs cur \<noteq> Some Directory then None
      else if c = [] \<or> c = ''.'' then walk fs cur cs
      else if c = ''..'' then walk fs (butlast cur) cs
      else if get_node fs (cur @ [c]) = None then None
      else walk fs (cur @ [c]) cs)"

definition start_dir :: "world \<Rightarrow> string \<Rightarrow> string list" where
  "start_dir w p = (if isAbsolute p then [] else cwd w)"

definition resolve :: "world \<Rightarrow> string \<Rightarrow> string list option" where
  "resolve w p = (if p = [] then None else walk (files w) (start_dir w p) (str_split ''/'' p))"

definition process_cwd :: "world \<Rightarrow> string" where
  "process_cwd w = ''/'' @ array_join ''/'' (cwd w)"

definition existsSync :: "world \<Rightarrow> string \<Rightarrow> bool" where
  "existsSync w p = (resolve w p \<noteq> None)"

text \<open>
  The \<open>fs\<close> calls throw a system error when the path does not resolve; the empty path
  never resolves. The source never inspects the error code, and the model reports every
  failed resolution as \<open>ENOENT\<close>.
\<close>

definition lstatSync :: "world \<Rightarrow> string \<Rightarrow> js_error + node" where
  "lstatSync w p =
     (case resolve w p of
        None \<Rightarrow> Inl (SystemError ''ENOENT'' p)
      | Some loc \<Rightarrow>
          (case get_node (files w) loc of
             None \<Rightarrow> Inl (SystemError ''ENOENT'' p)
           | Some n \<Rightarrow> Inr n))"

definition isDirectory :: "node \<Rightarrow> bool" where
  "isDirectory n = (n = Directory)"

definition readdirSync :: "world \<Rightarrow> string \<Rightarrow> js_error + string list" where
  "readdirSync w p =
     (case resolve w p of
        None \<Rightarrow> Inl (SystemError ''ENOENT'' p)
      | Some loc \<Rightarrow>
          if get_node (files w) loc = Some Directory then Inr (children (files w) loc)
          else Inl (SystemError ''ENOTDIR'' p))"

text \<open>
  \<open>mkdirSync\<close> and \<open>writeFileSync\<close> create a new object under the directory that the path
  without its last component resolves to; \<open>writeFileSync\<close> replaces the bytes of an existing
  file.
\<close>

definition create_node :: "world \<Rightarrow> string \<Rightarrow> node \<Rightarrow> js_error + world" where
  "create_node w p n =
     (let comps = str_split ''/'' p
      in case walk (files w) (start_dir w p) (butlast comps) of
           None \<Rightarrow> Inl (SystemError ''ENOENT'' p)
         | Some parent \<Rightarrow>
             if get_node (files w) parent \<noteq> Some Directory then Inl (SystemError ''ENOTDIR'' p)
             else if last comps = [] \<or> last comps = ''.'' \<or> last comps = ''..''
               then Inl (SystemError ''ENOENT'' p)
             else Inr (w\<lparr>files := files w @ [(parent @ [last comps], n)]\<rparr>))"

definition mkdirSync :: "world \<Rightarrow> string \<Rightarrow> js_error + world" where
  "mkdirSync w p =
     (if p = [] then Inl (SystemError ''ENOENT'' p)
      else if existsSync w p then Inl (SystemError ''EEXIST'' p)
      else create_node w p Directory)"

definition writeFileSync :: "world \<Rightarrow> string \<Rightarrow> 8 word list \<Rightarrow> js_error + world" where
  "writeFileSync w p content =
     (if p = [] then Inl (SystemError ''ENOENT'' p)
      else case resolve w p of
             Some loc \<Rightarrow>
               if get_node (files w) loc = Some Directory then Inl (SystemError ''EISDIR'' p)
               else Inr (w\<lparr>files := AList.update loc (File content) (files w)\<rparr>)
           | None \<Rightarrow> create_node w p (File content))"

text \<open>
  What every file system satisfies: an object has one entry, its names are proper names, and
  it lies in a directory.
\<close>

definition valid_name :: "string \<Rightarrow> bool" where
  "valid_name n = (n \<noteq> [] \<and> n \<noteq> ''.'' \<and> n \<noteq> ''..'' \<and> CHR ''/'' \<notin> set n)"


definition wf_files :: "(string list \<times> node) list \<Rightarrow> bool" where
  "wf_files fs =
     (distinct (map fst fs) \<and>
      list_all (\<lambda>e. fst e \<noteq> [] \<and> list_all valid_name (fst e) \<and>
                    get_node fs (butlast (fst e)) = Some Directory) fs)"

section \<open>The host and the network\<close>

text \<open>
  A response as the callbacks of the source read it: the status code, the \<open>location\<close> header
  (absent or a string) and the bytes of the body. A request is answered by a response or by
  an \<open>error\<close> event of the request. The server may answer a URL differently each time: it is
  a function of the requests made before and of the URL.
\<close>

record IncomingMessage =
  statusCode :: nat
  location :: "string option"
  body :: "8 word list"

datatype reply = Response IncomingMessage | RequestError js_error

record host =
  module_dir :: string
  os_platform :: string
  os_arch :: string
  os_homedir :: string
  win32_join :: "string list \<Rightarrow> string"
  server :: "string list \<Rightarrow> string \<Rightarrow> reply"

text \<open>
  \<open>module_dir\<close> is \<open>__dirname\<close> of util.js, and \<open>win32_join\<close> is \<open>path.join\<close> of a Windows host,
  which is taken as it is given. The result of a function that returns a promise:
  the promise is resolved or rejected; or the function throws before it returns the promise
  (\<open>Thrown\<close>); or an exception is thrown inside the \<open>response\<close> callback of \<open>client.get\<close>, which
  runs from the event loop after the promise was returned, so that no promise and no
  \<open>catch\<close> block receives it and the process ends on the uncaught exception (\<open>Uncaught\<close>).
  Node keeps an informational response (a status below 200) to itself and never calls the
  response callback with it; what becomes of the promise then is not followed, and the result
  is \<open>NoResponse\<close>.
\<close>

datatype 'a outcome =
    Resolved 'a | Rejected js_error | Thrown js_error | Uncaught js_error | NoResponse

section \<open>util.js: mkDirRecursive and listInstalled\<close>

definition standardInstallDirectory :: "host \<Rightarrow> string" where
  "standardInstallDirectory h = path_join [module_dir h, ''installed'']"

text \<open>
  The loop of \<open>mkDirRecursive\<close> over \<open>i = 2, ..., parts.length\<close>, as a recursion over the list
  of these indices. An exception leaves the directories made so far.
\<close>

fun mkDirRecursive_loop ::
  "world \<Rightarrow> string \<Rightarrow> string list \<Rightarrow> nat list \<Rightarrow> (js_error + unit) \<times> world" where
  "mkDirRecursive_loop w dirname parts [] = (Inr (), w)"
| "mkDirRecursive_loop w dirname parts (i # rest) =
     (let p = array_join path_sep (take i parts)
      in if existsSync w p then
           (case lstatSync w p of
              Inl e \<Rightarrow> (Inl e, w)
            | Inr st \<Rightarrow>
                if \<not> isDirectory st
                then (Inl (Error (''cannot mkdir '' @ [CHR 0x27] @ dirname @ [CHR 0x27] @ ''. ''
                                  @ [CHR 0x27] @ p @ [CHR 0x27] @ '' is not a directory.'')), w)
                else mkDirRecursive_loop w dirname parts rest)
         else
           (case mkdirSync w p of
              Inl e \<Rightarrow> (Inl e, w)
            | Inr w' \<Rightarrow> mkDirRecursive_loop w' dirname parts rest))"

definition mkDirRecursive :: "world \<Rightarrow> string \<Rightarrow> (js_error + unit) \<times> world" where
  "mkDirRecursive w dirname0 =
     (let dirname1 = (if \<not> isAbsolute dirname0 then path_join [process_cwd w, dirname0] else dirname0);
          dirname2 = path_normalize dirname1;
          parts = str_split path_sep dirname2
      in mkDirRecursive_loop w dirname2 parts [2 ..< Suc (length parts)])"

record DistEntry =
  name :: string
  version :: string
  bufPath :: string

text \<open>
  The outer loop of \<open>listInstalled\<close> over the names in the install directory; the inner loop
  is a filter, as it only skips or pushes. An exception of \<open>lstatSync\<close> or \<open>readdirSync\<close> ends
  the call.
\<close>

fun listInstalled_loop :: "world \<Rightarrow> string \<Rightarrow> string list \<Rightarrow> js_error + DistEntry list" where
  "listInstalled_loop w installDir [] = Inr []"
| "listInstalled_loop w installDir (ver # rest) =
     (let abs = path_join [installDir, ver]
      in case lstatSync w abs of
           Inl e \<Rightarrow> Inl e
         | Inr st \<Rightarrow>
             if \<not> isDirectory st then listInstalled_loop w installDir rest
             else
               (case readdirSync w abs of
                  Inl e \<Rightarrow> Inl e
                | Inr binaryNames \<Rightarrow>
                    (case listInstalled_loop w installDir rest of
                       Inl e \<Rightarrow> Inl e
                     | Inr entries \<Rightarrow>
                         Inr (map (\<lambda>binaryName.
                                     \<lparr>name = ver @ ''/'' @ binaryName,
                                      version = ver,
                                      bufPath = path_join [abs, binaryName]\<rparr>)
                                (filter (\<lambda>binaryName. startsWith binaryName ''buf-'') binaryNames)
                              @ entries))))"

definition listInstalled :: "world \<Rightarrow> string \<Rightarrow> js_error + DistEntry list" where
  "listInstalled w installDir =
     (if \<not> existsSync w installDir then Inr []
      else case readdirSync w installDir of
             Inl e \<Rightarrow> Inl e
           | Inr versions \<Rightarrow> listInstalled_loop w installDir versions)"

section \<open>util.js: the HTTP functions\<close>

definition valid_url :: "string \<Rightarrow> bool" where
  "valid_url url = (startsWith url ''https://'' \<or> startsWith url ''http://'')"

definition send_request :: "host \<Rightarrow> world \<Rightarrow> string \<Rightarrow> reply \<times> world" where
  "send_request h w url = (server h (requests w) url, w\<lparr>requests := requests w @ [url]\<rparr>)"

text \<open>
  \<open>httpGetRedirect\<close>: the two assertions on the URL run before the promise is made; the
  assertion on the \<open>location\<close> header runs inside the response callback.
\<close>

definition httpGetRedirect :: "host \<Rightarrow> world \<Rightarrow> string \<Rightarrow> string outcome \<times> world" where
  "httpGetRedirect h w url =
     (if url = [] then (Thrown (AssertionError ''typeof url === 'string' && url.length > 0''), w)
      else if \<not> valid_url url
        then (Thrown (AssertionError ''url.startsWith('https://') || url.startsWith('http://')''), w)
      else
        (case send_request h w url of
           (RequestError e, w') \<Rightarrow> (Rejected e, w')
         | (Response response, w') \<Rightarrow>
             if statusCode response < 200 then (NoResponse, w')
             else if 300 \<le> statusCode response \<and> statusCode response < 400 then
               (case location response of
                  None \<Rightarrow> (Uncaught (AssertionError ''location && location.length > 0''), w')
                | Some loc \<Rightarrow>
                    if loc = [] then (Uncaught (AssertionError ''location && location.length > 0''), w')
                    else (Resolved loc, w'))
             else if statusCode response \<noteq> 200
               then (Rejected (Error (''HTTP '' @ show_nat (statusCode response) @ '' for '' @ url)), w')
             else (Rejected (Error (''Did not get expected redirect for '' @ url)), w')))"

text \<open>
  \<open>httpGet\<close> calls itself from inside the response callback: what the inner call throws
  before it returns its promise is an uncaught exception there, and the promise the inner call
  returns is handed to \<open>resolve\<close>, so the outer promise settles as the inner one does.
\<close>

function httpGet ::
  "host \<Rightarrow> world \<Rightarrow> string \<Rightarrow> string list \<Rightarrow> IncomingMessage outcome \<times> world" where
  "httpGet h w url redirects =
     (if url = [] then (Thrown (AssertionError ''typeof url === 'string' && url.length > 0''), w)
      else if \<not> valid_url url
        then (Thrown (AssertionError ''url.startsWith('https://') || url.startsWith('http://')''), w)
      else if \<not> length redirects \<le> 3 then (Thrown (AssertionError ''redirects.length <= 3''), w)
      else
        (case send_request h w url of
           (RequestError e, w') \<Rightarrow> (Rejected e, w')
         | (Response response, w') \<Rightarrow>
             if statusCode response < 200 then (NoResponse, w')
             else if 300 \<le> statusCode response \<and> statusCode response < 400 then
               (case location response of
                  None \<Rightarrow> (Uncaught (AssertionError ''location && location.length > 0''), w')
                | Some loc \<Rightarrow>
                    if loc = [] then (Uncaught (AssertionError ''location && location.length > 0''), w')
                    else
                      (case httpGet h w' loc (redirects @ [loc]) of
                         (Thrown e, w'') \<Rightarrow> (Uncaught e, w'')
                       | follow \<Rightarrow> follow))
             else if statusCode response \<noteq> 200
               then (Rejected (Error (''HTTP '' @ show_nat (statusCode response) @ '' for '' @ url)), w')
             else (Resolved response, w')))"
  by pat_completeness auto
termination
  by (relation "measure (\<lambda>(h, w, url, redirects). 4 - length redirects)") auto

declare httpGet.simps [simp del]

text \<open>
  \<open>httpDownload\<close> (the function \<open>download\<close>): \<open>httpGet\<close> is called inside the promise executor,
  where an exception rejects the promise; the body is read to its end.
\<close>

definition httpDownload :: "host \<Rightarrow> world \<Rightarrow> string \<Rightarrow> 8 word list outcome \<times> world" where
  "httpDownload h w url =
     (if url = [] then (Thrown (AssertionError ''typeof url === 'string' && url.length > 0''), w)
      else if \<not> valid_url url
        then (Thrown (AssertionError ''url.startsWith('https://') || url.startsWith('http://')''), w)
      else
        (case httpGet h w url [] of
           (Resolved response, w') \<Rightarrow> (Resolved (body response), w')
         | (Rejected reason, w') \<Rightarrow> (Rejected reason, w')
         | (Thrown e, w') \<Rightarrow> (Rejected e, w')
         | (Uncaught e, w') \<Rightarrow> (Uncaught e, w')
         | (NoResponse, w') \<Rightarrow> (NoResponse, w')))"

section \<open>util.js: makeReleaseName\<close>

record ReleaseParameters =
  platform :: string
  arch :: string
  version :: string

text \<open>
  The source destructures \<open>platform\<close> and \<open>arch\<close>, overwrites \<open>platform\<close> twice and \<open>arch\<close> once.
  \<open>platform[0].toUpperCase()\<close> throws a TypeError when \<open>platform\<close> is the empty string
  (\<open>platform[0]\<close> is \<open>undefined\<close>); \<open>platform.slice(1)\<close> is the rest of the string.
\<close>

definition makeReleaseName :: "ReleaseParameters \<Rightarrow> js_error + string" where
  "makeReleaseName params =
     (let platform0 = platform params;
          arch0 = arch params;
          win = startsWith platform0 ''win'';
          platform1 = (if win then ''windows'' else platform0);
          ext = (if win then ''.exe'' else '''')
      in case platform1 of
           [] \<Rightarrow> Inl (TypeError ''Cannot read properties of undefined (reading 'toUpperCase')'')
         | c # cs \<Rightarrow>
             let platform2 = toUpperCase [c] @ cs;
                 arch1 = (if arch0 = ''x64'' then ''x86_64'' else arch0)
             in Inr (ReleaseParameters.version params @ ''/buf-'' @ platform2 @ ''-'' @ arch1 @ ext))"

section \<open>util.js: findBufInPath\<close>

text \<open>
  \<open>envPath\<close> is \<open>process.env.PATH\<close>: a string, or \<open>undefined\<close> (\<open>None\<close>). The two filters and
  the two maps build the whole array of candidates before the loop asks the file system.
  \<open>bufName\<close> is the file name of the first map and \<open>expandHome\<close> the function of the second.
  \<open>path.sep\<close>, \<open>path.delimiter\<close> and \<open>path.join\<close> are those of the host: of Windows when the
  platform starts with \<open>win\<close>, POSIX otherwise.
\<close>

definition host_sep :: "host \<Rightarrow> string" where
  "host_sep h = (if startsWith (os_platform h) ''win'' then win32_sep else path_sep)"

definition host_delimiter :: "host \<Rightarrow> string" where
  "host_delimiter h = (if startsWith (os_platform h) ''win'' then win32_delimiter else path_delimiter)"

definition host_join :: "host \<Rightarrow> string list \<Rightarrow> string" where
  "host_join h args = (if startsWith (os_platform h) ''win'' then win32_join h args else path_join args)"

definition bufName :: "host \<Rightarrow> string" where
  "bufName h = (if startsWith (os_platform h) ''win'' then ''buf.exe'' else ''buf'')"

definition expandHome :: "host \<Rightarrow> string \<Rightarrow> string" where
  "expandHome h p = (if p \<noteq> [] \<and> hd p = CHR ''~'' then host_join h [os_homedir h, drop 1 p] else p)"

definition findBufInPath_candidates :: "host \<Rightarrow> string \<Rightarrow> string list" where
  "findBufInPath_candidates h envPath =
     map (\<lambda>p. expandHome h p)
       (map (\<lambda>p. host_join h [p, bufName h])
         (filter (\<lambda>p. \<not> endsWith p (''.npm-global'' @ host_sep h @ ''bin''))
           (filter (\<lambda>p. \<not> endsWith p (''node_modules'' @ host_sep h @ ''.bin''))
             (str_split (host_delimiter h) envPath))))"

definition findBufInPath :: "host \<Rightarrow> world \<Rightarrow> string option \<Rightarrow> string option" where
  "findBufInPath h w envPath =
     (case envPath of
        None \<Rightarrow> None
      | Some s \<Rightarrow> find (\<lambda>c. existsSync w c) (findBufInPath_candidates h s))"

section \<open>buf.js: ensureInstalled\<close>

text \<open>
  \<open>ensureInstalled\<close> is an \<open>async\<close> function: what it throws rejects its promise. Its three
  stages are given names: lines 64 to 72 resolve the version (\<open>resolveVersion\<close>), lines 96 to
  99 save the release (\<open>saveRelease\<close>), and the rest is \<open>ensureInstalled\<close>. The argument is a
  configured version, or \<open>undefined\<close> (\<open>None\<close>). \<open>xs.pop()\<close> of a non-empty array is its last
  element.
\<close>

definition latestUrl :: string where
  "latestUrl = ''https://github.com/bufbuild/buf/releases/latest''"

definition downloadUrl :: "string \<Rightarrow> string" where
  "downloadUrl releaseName = ''https://github.com/bufbuild/buf/releases/download/v'' @ releaseName"

definition retrieve_message :: "js_error \<Rightarrow> string" where
  "retrieve_message e = ''bufbuild failed to retrieve latest buf version number: '' @ toString e"

definition download_message :: "string \<Rightarrow> js_error \<Rightarrow> string" where
  "download_message ver e =
     ''bufbuild failed to download buf v'' @ ver @ ''. '' @ [CHR 0x0A]
     @ ''Did you misspell the version number? The version number must look like ''
     @ [CHR 0x22] @ ''1.6.0'' @ [CHR 0x22] @ '', without a leading '' @ [CHR 0x22] @ ''v''
     @ [CHR 0x22] @ ''.'' @ [CHR 0x0A] @ toString e"

definition install_message :: "string \<Rightarrow> string" where
  "install_message ver = ''bufbuild failed to install buf v'' @ ver @ ''.''"

definition resolveVersion :: "host \<Rightarrow> world \<Rightarrow> string option \<Rightarrow> string outcome \<times> world" where
  "resolveVersion h w ver =
     (if ver = Some ''latest'' \<or> ver = None then
        (case httpGetRedirect h w latestUrl of
           (Resolved latestLocation, w') \<Rightarrow> (Resolved (last (str_split ''/v'' latestLocation)), w')
         | (Rejected e, w') \<Rightarrow> (Rejected (Error (retrieve_message e)), w')
         | (Thrown e, w') \<Rightarrow> (Rejected (Error (retrieve_message e)), w')
         | (Uncaught e, w') \<Rightarrow> (Uncaught e, w')
         | (NoResponse, w') \<Rightarrow> (NoResponse, w'))
      else (case ver of Some v \<Rightarrow> (Resolved v, w) | None \<Rightarrow> (Resolved [], w)))"

definition saveRelease ::
  "host \<Rightarrow> world \<Rightarrow> string \<Rightarrow> 8 word list \<Rightarrow> (js_error + unit) \<times> world" where
  "saveRelease h w releaseName binaryContent =
     (let releasePath = path_join [standardInstallDirectory h, releaseName];
          releaseDir = path_dirname releasePath
      in case mkDirRecursive w releaseDir of
           (Inl e, w') \<Rightarrow> (Inl e, w')
         | (Inr u, w') \<Rightarrow>
             (case writeFileSync w' releasePath binaryContent of
                Inl e \<Rightarrow> (Inl e, w')
              | Inr w'' \<Rightarrow> (Inr (), w'')))"

definition ensureInstalled :: "host \<Rightarrow> world \<Rightarrow> string option \<Rightarrow> DistEntry outcome \<times> world" where
  "ensureInstalled h w ver0 =
     (case resolveVersion h w ver0 of
        (Rejected e, w1) \<Rightarrow> (Rejected e, w1)
      | (Thrown e, w1) \<Rightarrow> (Rejected e, w1)
      | (Uncaught e, w1) \<Rightarrow> (Uncaught e, w1)
      | (NoResponse, w1) \<Rightarrow> (NoResponse, w1)
      | (Resolved ver, w1) \<Rightarrow>
          (case makeReleaseName \<lparr>platform = os_platform h, arch = os_arch h, version = ver\<rparr> of
             Inl e \<Rightarrow> (Rejected e, w1)
           | Inr releaseName \<Rightarrow>
               (case listInstalled w1 (standardInstallDirectory h) of
                  Inl e \<Rightarrow> (Rejected e, w1)
                | Inr listed \<Rightarrow>
                    (case find (\<lambda>i. name i = releaseName) listed of
                       Some alreadyInstalled \<Rightarrow> (Resolved alreadyInstalled, w1)
                     | None \<Rightarrow>
                         (case httpDownload h w1 (downloadUrl releaseName) of
                            (Rejected e, w2) \<Rightarrow> (Rejected (Error (download_message ver e)), w2)
                          | (Thrown e, w2) \<Rightarrow> (Rejected (Error (download_message ver e)), w2)
                          | (Uncaught e, w2) \<Rightarrow> (Uncaught e, w2)
                          | (NoResponse, w2) \<Rightarrow> (NoResponse, w2)
                          | (Resolved binaryContent, w2) \<Rightarrow>
                              (case saveRelease h w2 releaseName binaryContent of
                                 (Inl e, w3) \<Rightarrow> (Rejected e, w3)
                               | (Inr u, w3) \<Rightarrow>
                                   (case listInstalled w3 (standardInstallDirectory h) of
                                      Inl e \<Rightarrow> (Rejected e, w3)
                                    | Inr listed' \<Rightarrow>
                                        (case find (\<lambda>i. name i = releaseName) listed' of
                                           None \<Rightarrow> (Rejected (Error (install_message ver)), w3)
                                         | Some installed \<Rightarrow>
                                             (Resolved installed,
                                              w3\<lparr>console := console w3 @
                                                 [''bufbuild installed buf v'' @ DistEntry.version installed @ ''.'']\<rparr>)))))))))"

section \<open>Normal forms and the listing, for the proofs\<close>

text \<open>
  What \<open>normalizeString\<close> returns, as a list of segments: some \<open>..\<close> (none for an absolute
  path) followed by proper names. \<open>nsegs\<close> are the normalized segments of a path, and \<open>render\<close>
  writes segments as a path.
\<close>

definition norm_form :: "bool \<Rightarrow> string list \<Rightarrow> bool" where
  "norm_form allowAboveRoot xs =
     (\<exists>k names. xs = replicate k ''..'' @ names \<and> list_all valid_name names
        \<and> (allowAboveRoot \<or> k = 0))"

definition nsegs :: "string \<Rightarrow> string list" where
  "nsegs p = foldl (norm_step (\<not> isAbsolute p)) [] (str_split ''/'' p)"

definition render :: "bool \<Rightarrow> string list \<Rightarrow> string" where
  "render absolute xs = (if absolute then ''/'' else []) @ array_join ''/'' xs"

text \<open>
  The entry that \<open>listInstalled\<close> pushes for a version directory and a binary name, and the
  list it returns for an install directory at location \<open>loc\<close> with the names \<open>vs\<close>.
\<close>

definition dist_entry :: "string \<Rightarrow> string \<Rightarrow> string \<Rightarrow> DistEntry" where
  "dist_entry installDir v b =
     \<lparr>name = v @ ''/'' @ b, version = v, bufPath = path_join [path_join [installDir, v], b]\<rparr>"

definition listed_entries ::
  "(string list \<times> node) list \<Rightarrow> string \<Rightarrow> string list \<Rightarrow> string list \<Rightarrow> DistEntry list" where
  "listed_entries fs installDir loc vs =
     concat (map (\<lambda>v. if get_node fs (loc @ [v]) = Some Directory
                       then map (dist_entry installDir v)
                              (filter (\<lambda>b. startsWith b ''buf-'') (children fs (loc @ [v])))
                       else []) vs)"

section \<open>Hosts and servers for the examples\<close>

text \<open>
  A redirect as \<open>httpGet\<close> follows it: a status from 300 to 399 with a non-empty \<open>location\<close>.
\<close>

definition is_redirect :: "IncomingMessage \<Rightarrow> string \<Rightarrow> bool" where
  "is_redirect r l = (300 \<le> statusCode r \<and> statusCode r < 400 \<and> location r = Some l \<and> l \<noteq> [])"

text \<open>
  The servers of the examples answer from a table from URL to reply, and have no answer (a
  request error) for any other URL.
\<close>

definition table_server :: "(string \<times> reply) list \<Rightarrow> string list \<Rightarrow> string \<Rightarrow> reply" where
  "table_server tbl log url =
     (case map_of tbl url of
        Some r \<Rightarrow> r
      | None \<Rightarrow> RequestError (Error ''getaddrinfo ENOTFOUND''))"

definition redirect_to :: "string \<Rightarrow> reply" where
  "redirect_to l = Response \<lparr>statusCode = 302, location = Some l, body = []\<rparr>"

definition ok_reply :: "8 word list \<Rightarrow> reply" where
  "ok_reply b = Response \<lparr>statusCode = 200, location = None, body = b\<rparr>"

definition status_reply :: "nat \<Rightarrow> reply" where
  "status_reply n = Response \<lparr>statusCode = n, location = None, body = []\<rparr>"

definition example_host :: "(string \<times> reply) list \<Rightarrow> host" where
  "example_host tbl =
     \<lparr>module_dir = ''/opt/bufbuild'', os_platform = ''darwin'', os_arch = ''arm64'',
      os_homedir = ''/home/dev'', win32_join = path_join, server = table_server tbl\<rparr>"

definition windows_host :: host where
  "windows_host =
     \<lparr>module_dir = ''/opt/bufbuild'', os_platform = ''win32'', os_arch = ''x64'',
      os_homedir = ''/home/dev'', win32_join = array_join win32_sep, server = table_server []\<rparr>"

definition empty_world :: world where
  "empty_world = \<lparr>files = [], cwd = [], requests = [], console = []\<rparr>"

definition chain_table :: "(string \<times> reply) list" where
  "chain_table =
     [(''http://a/0'', redirect_to ''http://a/1''),
      (''http://a/1'', redirect_to ''http://a/2''),
      (''http://a/2'', redirect_to ''https://b/3''),
      (''https://b/3'', ok_reply [1, 2, 3]),
      (''http://c/0'', redirect_to ''http://c/1''),
      (''http://c/1'', redirect_to ''http://c/2''),
      (''http://c/2'', redirect_to ''http://c/3''),
      (''http://c/3'', redirect_to ''http://c/4''),
      (''http://c/4'', ok_reply [4])]"

definition latest_table :: "(string \<times> reply) list" where
  "latest_table =
     [(latestUrl, redirect_to ''https://github.com/bufbuild/buf/releases/tag/v1.6.0''),
      (''https://github.com/bufbuild/buf/releases/download/v1.6.0/rc1/buf-Darwin-arm64'',
       ok_reply [9, 9])]"

definition no_location_table :: "(string \<times> reply) list" where
  "no_location_table = [(latestUrl, Response \<lparr>statusCode = 302, location = None, body = []\<rparr>)]"

text \<open>
  A file system with a cached release, a project shim directory and a system directory that
  both hold \<open>buf\<close>; and the file system left by an installation of the version \<open>1.6.0/rc1\<close>
  into an empty one.
\<close>

definition installed_world :: world where
  "installed_world =
     \<lparr>files =
        [([''opt''], Directory),
         ([''opt'', ''bufbuild''], Directory),
         ([''opt'', ''bufbuild'', ''installed''], Directory),
         ([''opt'', ''bufbuild'', ''installed'', ''README''], File [7]),
         ([''opt'', ''bufbuild'', ''installed'', ''1.6.0''], Directory),
         ([''opt'', ''bufbuild'', ''installed'', ''1.6.0'', ''buf-Darwin-arm64''], File [1, 2, 3]),
         ([''opt'', ''bufbuild'', ''installed'', ''1.6.0'', ''notes.txt''], File []),
         ([''proj''], Directory),
         ([''proj'', ''node_modules''], Directory),
         ([''proj'', ''node_modules'', ''.bin''], Directory),
         ([''proj'', ''node_modules'', ''.bin'', ''buf''], File [5]),
         ([''usr''], Directory),
         ([''usr'', ''bin''], Directory),
         ([''usr'', ''bin'', ''buf''], File [6])],
      cwd = [''proj''], requests = [], console = []\<rparr>"

definition nested_world :: world where
  "nested_world =
     \<lparr>files =
        [([''opt''], Directory),
         ([''opt'', ''bufbuild''], Directory),
         ([''opt'', ''bufbuild'', ''installed''], Directory),
         ([''opt'', ''bufbuild'', ''installed'', ''1.6.0''], Directory),
         ([''opt'', ''bufbuild'', ''installed'', ''1.6.0'', ''rc1''], Directory),
         ([''opt'', ''bufbuild'', ''installed'', ''1.6.0'', ''rc1'', ''buf-Darwin-arm64''],
          File [9, 9])],
      cwd = [], requests = [], console = []\<rparr>"

definition saved_world :: world where
  "saved_world =
     \<lparr>files =
        [([''opt''], Directory),
         ([''opt'', ''bufbuild''], Directory),
         ([''opt'', ''bufbuild'', ''installed''], Directory),
         ([''opt'', ''bufbuild'', ''installed'', ''1.6.0''], Directory),
         ([''opt'', ''bufbuild'', ''installed'', ''1.6.0'', ''buf-Darwin-arm64''], File [1, 2, 3])],
      cwd = [], requests = [], console = []\<rparr>"

definition cached_entry :: DistEntry where
  "cached_entry =
     \<lparr>name = ''1.6.0/buf-Darwin-arm64'', version = ''1.6.0'',
      bufPath = ''/opt/bufbuild/installed/1.6.0/buf-Darwin-arm64''\<rparr>"

section \<open>Release names\<close>

text \<open>
  Claim C1. \<open>makeReleaseName\<close> is a function of the three fields only (it reads nothing else,
  so equal parameters give equal names). A platform starting with \<open>win\<close> becomes \<open>Windows\<close> and
  the name ends in \<open>.exe\<close>; any other non-empty platform has its first character upper-cased
  and the rest kept; \<open>x64\<close> becomes \<open>x86_64\<close> and every other architecture is kept; the version
  is the leading segment, verbatim. The two names of the specification are computed.
\<close>

theorem makeReleaseName_normalization:
  "(startsWith p ''win'' \<longrightarrow>
      makeReleaseName \<lparr>platform = p, arch = a, version = v\<rparr> =
        Inr (v @ ''/buf-Windows-'' @ (if a = ''x64'' then ''x86_64'' else a) @ ''.exe''))
   \<and> (\<not> startsWith (c # cs) ''win'' \<longrightarrow>
      makeReleaseName \<lparr>platform = c # cs, arch = a, version = v\<rparr> =
        Inr (v @ ''/buf-'' @ toUpperCase [c] @ cs @ ''-'' @ (if a = ''x64'' then ''x86_64'' else a)))
   \<and> makeReleaseName \<lparr>platform = ''win32'', arch = ''x64'', version = ''1.6.0''\<rparr> =
        Inr ''1.6.0/buf-Windows-x86_64.exe''
   \<and> makeReleaseName \<lparr>platform = ''darwin'', arch = ''arm64'', version = ''1.6.0''\<rparr> =
        Inr ''1.6.0/buf-Darwin-arm64''"
  by (simp add: makeReleaseName_def startsWith_def toUpperCase_def upper_table_def Let_def)

theorem makeReleaseName_normalization_witness:
  "startsWith ''win32'' ''win''
   \<and> makeReleaseName \<lparr>platform = ''win32'', arch = ''ia32'', version = ''1.6.0-rc1''\<rparr> =
        Inr ''1.6.0-rc1/buf-Windows-ia32.exe''
   \<and> \<not> startsWith ''linux'' ''win''
   \<and> makeReleaseName \<lparr>platform = ''linux'', arch = ''x64'', version = ''1.6.0''\<rparr> =
        Inr ''1.6.0/buf-Linux-x86_64''"
  using makeReleaseName_normalization [of "''win32''" "''ia32''" "''1.6.0-rc1''" "CHR ''l''" "''inux''"]
    makeReleaseName_normalization [of "''win32''" "''x64''" "''1.6.0''" "CHR ''l''" "''inux''"]
  by (simp add: startsWith_def toUpperCase_def upper_table_def)

section \<open>The HTTP functions\<close>

lemma valid_url_nonempty: "valid_url u \<Longrightarrow> u \<noteq> []"
  by (auto simp: valid_url_def startsWith_def)

text \<open>
  Claim C6, as amended. For a valid URL answered by a response, \<open>httpGetRedirect\<close> makes this
  one request and no other. A status from 300 to 399 with a non-empty \<open>location\<close> resolves with
  that \<open>location\<close>; status 200 is rejected with \<open>Did not get expected redirect for\<close> the URL;
  every other status above 200 is rejected with \<open>HTTP\<close>, the status, \<open>for\<close> and the URL. A
  status below 200 never reaches the callback.
\<close>

theorem httpGetRedirect_first_hop:
  assumes "valid_url url" and "server h (requests w) url = Response r"
  shows "(300 \<le> statusCode r \<and> statusCode r < 400 \<and> location r = Some l \<and> l \<noteq> [] \<longrightarrow>
            httpGetRedirect h w url = (Resolved l, w\<lparr>requests := requests w @ [url]\<rparr>))
       \<and> (statusCode r = 200 \<longrightarrow>
            httpGetRedirect h w url =
              (Rejected (Error (''Did not get expected redirect for '' @ url)),
               w\<lparr>requests := requests w @ [url]\<rparr>))
       \<and> (200 < statusCode r \<and> \<not> (300 \<le> statusCode r \<and> statusCode r < 400) \<longrightarrow>
            httpGetRedirect h w url =
              (Rejected (Error (''HTTP '' @ show_nat (statusCode r) @ '' for '' @ url)),
               w\<lparr>requests := requests w @ [url]\<rparr>))"
  using assms valid_url_nonempty [of url]
  by (auto simp: httpGetRedirect_def send_request_def)

theorem httpGetRedirect_first_hop_witness:
  "httpGetRedirect (example_host [(latestUrl, redirect_to ''https://github.com/bufbuild/buf/releases/tag/v1.6.0'')]) empty_world latestUrl =
     (Resolved ''https://github.com/bufbuild/buf/releases/tag/v1.6.0'',
      empty_world\<lparr>requests := [latestUrl]\<rparr>)"
  using httpGetRedirect_first_hop [of latestUrl
      "example_host [(latestUrl, redirect_to ''https://github.com/bufbuild/buf/releases/tag/v1.6.0'')]"
      empty_world
      "\<lparr>statusCode = 302, location = Some ''https://github.com/bufbuild/buf/releases/tag/v1.6.0'', body = []\<rparr>"
      "''https://github.com/bufbuild/buf/releases/tag/v1.6.0''"]
  by (simp add: example_host_def table_server_def redirect_to_def empty_world_def
      latestUrl_def valid_url_def startsWith_def)

text \<open>
  The claim as stated gives the \<open>Did not get expected redirect\<close> error to every status that is
  not a redirect. A 404 is rejected with another error.
\<close>

theorem httpGetRedirect_404_counterexample:
  "httpGetRedirect (example_host [(latestUrl, status_reply 404)]) empty_world latestUrl =
     (Rejected (Error ''HTTP 404 for https://github.com/bufbuild/buf/releases/latest''),
      empty_world\<lparr>requests := [latestUrl]\<rparr>)"
  by (simp add: httpGetRedirect_def send_request_def example_host_def table_server_def
      status_reply_def empty_world_def latestUrl_def valid_url_def startsWith_def show_nat.simps)

lemma httpGet_follow:
  assumes "valid_url url" and "length redirects \<le> 3"
    and "server h (requests w) url = Response r" and "is_redirect r l"
  shows "httpGet h w url redirects =
           (case httpGet h (w\<lparr>requests := requests w @ [url]\<rparr>) l (redirects @ [l]) of
              (Thrown e, w'') \<Rightarrow> (Uncaught e, w'')
            | follow \<Rightarrow> follow)"
  using assms valid_url_nonempty [of url]
  by (subst httpGet.simps) (simp add: send_request_def is_redirect_def)

lemma httpGet_ok:
  assumes "valid_url url" and "length redirects \<le> 3"
    and "server h (requests w) url = Response r" and "statusCode r = 200"
  shows "httpGet h w url redirects = (Resolved r, w\<lparr>requests := requests w @ [url]\<rparr>)"
  using assms valid_url_nonempty [of url]
  by (subst httpGet.simps) (simp add: send_request_def)

lemma httpGet_too_many:
  assumes "valid_url url" and "3 < length redirects"
  shows "httpGet h w url redirects = (Thrown (AssertionError ''redirects.length <= 3''), w)"
  using assms valid_url_nonempty [of url]
  by (subst httpGet.simps) simp

lemma httpGet_requests_bound:
  "length (requests (snd (httpGet h w url redirects))) \<le> length (requests w) + (4 - length redirects)"
proof (induction h w url redirects rule: httpGet.induct)
  case (1 h w url redirects)
  show ?case
  proof (cases "url \<noteq> [] \<and> valid_url url \<and> length redirects \<le> 3")
    case False
    then show ?thesis by (subst httpGet.simps) auto
  next
    case ok: True
    show ?thesis
    proof (cases "server h (requests w) url")
      case (RequestError e)
      with ok show ?thesis by (subst httpGet.simps) (auto simp: send_request_def)
    next
      case (Response r)
      show ?thesis
      proof (cases "\<exists>l. is_redirect r l")
        case False
        with ok Response show ?thesis
          by (subst httpGet.simps) (auto simp: send_request_def is_redirect_def split: option.splits)
      next
        case True
        then obtain l where l: "is_redirect r l" by blast
        let ?w' = "w\<lparr>requests := requests w @ [url]\<rparr>"
        have ih: "length (requests (snd (httpGet h ?w' l (redirects @ [l]))))
                    \<le> length (requests ?w') + (4 - length (redirects @ [l]))"
          using "1.IH" ok Response l
          by (auto simp: send_request_def is_redirect_def)
        have "httpGet h w url redirects =
                (case httpGet h ?w' l (redirects @ [l]) of
                   (Thrown e, w'') \<Rightarrow> (Uncaught e, w'')
                 | follow \<Rightarrow> follow)"
          using httpGet_follow [of url redirects h w r l] ok Response l by simp
        then have "requests (snd (httpGet h w url redirects)) =
                     requests (snd (httpGet h ?w' l (redirects @ [l])))"
          by (auto split: prod.splits outcome.splits)
        with ih ok show ?thesis by auto
      qed
    qed
  qed
qed

text \<open>
  Claim C4. \<open>httpGet\<close> started with an empty chain: when the URL and the next three
  locations are each answered by a redirect to a valid URL, the fourth request is made, and
  if it is answered by status 200 the promise resolves with that response; if it is answered
  by a fourth redirect, the assertion \<open>redirects.length <= 3\<close> fails and the fifth request is
  never made. No call makes more than four requests.
\<close>

theorem httpGet_three_redirects:
  assumes urls: "valid_url u0" "valid_url l1" "valid_url l2" "valid_url l3"
    and hops: "server h (requests w) u0 = Response r1" "is_redirect r1 l1"
      "server h (requests w @ [u0]) l1 = Response r2" "is_redirect r2 l2"
      "server h (requests w @ [u0, l1]) l2 = Response r3" "is_redirect r3 l3"
      "server h (requests w @ [u0, l1, l2]) l3 = Response r4"
  shows "(statusCode r4 = 200 \<longrightarrow>
            httpGet h w u0 [] = (Resolved r4, w\<lparr>requests := requests w @ [u0, l1, l2, l3]\<rparr>))
       \<and> (valid_url l4 \<and> is_redirect r4 l4 \<longrightarrow>
            httpGet h w u0 [] =
              (Uncaught (AssertionError ''redirects.length <= 3''),
               w\<lparr>requests := requests w @ [u0, l1, l2, l3]\<rparr>))
       \<and> length (requests (snd (httpGet h w' u rs))) \<le> length (requests w') + 4"
proof (intro conjI impI)
  let ?w1 = "w\<lparr>requests := requests w @ [u0]\<rparr>"
  let ?w2 = "?w1\<lparr>requests := requests ?w1 @ [l1]\<rparr>"
  let ?w3 = "?w2\<lparr>requests := requests ?w2 @ [l2]\<rparr>"
  let ?w4 = "?w3\<lparr>requests := requests ?w3 @ [l3]\<rparr>"
  have w4: "?w4 = w\<lparr>requests := requests w @ [u0, l1, l2, l3]\<rparr>" by simp
  have s1: "httpGet h w u0 [] =
              (case httpGet h ?w1 l1 [l1] of (Thrown e, w'') \<Rightarrow> (Uncaught e, w'') | follow \<Rightarrow> follow)"
    using httpGet_follow [OF urls(1) _ hops(1,2), of "[]"] by simp
  have s2: "httpGet h ?w1 l1 [l1] =
              (case httpGet h ?w2 l2 [l1, l2] of (Thrown e, w'') \<Rightarrow> (Uncaught e, w'') | follow \<Rightarrow> follow)"
    using httpGet_follow [of l1 "[l1]" h ?w1 r2 l2] urls(2) hops(3,4) by simp
  have s3: "httpGet h ?w2 l2 [l1, l2] =
              (case httpGet h ?w3 l3 [l1, l2, l3] of (Thrown e, w'') \<Rightarrow> (Uncaught e, w'') | follow \<Rightarrow> follow)"
    using httpGet_follow [of l2 "[l1, l2]" h ?w2 r3 l3] urls(3) hops(5,6) by simp
  {
    assume "statusCode r4 = 200"
    then have "httpGet h ?w3 l3 [l1, l2, l3] = (Resolved r4, ?w4)"
      using httpGet_ok [of l3 "[l1, l2, l3]" h ?w3 r4] urls(4) hops(7) by simp
    then show "httpGet h w u0 [] = (Resolved r4, w\<lparr>requests := requests w @ [u0, l1, l2, l3]\<rparr>)"
      using s1 s2 s3 by simp
  }
  {
    assume a: "valid_url l4 \<and> is_redirect r4 l4"
    have "httpGet h ?w3 l3 [l1, l2, l3] =
            (case httpGet h ?w4 l4 [l1, l2, l3, l4] of (Thrown e, w'') \<Rightarrow> (Uncaught e, w'') | follow \<Rightarrow> follow)"
      using httpGet_follow [of l3 "[l1, l2, l3]" h ?w3 r4 l4] urls(4) hops(7) a by simp
    moreover have "httpGet h ?w4 l4 [l1, l2, l3, l4] = (Thrown (AssertionError ''redirects.length <= 3''), ?w4)"
      using httpGet_too_many [of l4 "[l1, l2, l3, l4]" h ?w4] a by simp
    ultimately show "httpGet h w u0 [] =
              (Uncaught (AssertionError ''redirects.length <= 3''),
               w\<lparr>requests := requests w @ [u0, l1, l2, l3]\<rparr>)"
      using s1 s2 s3 by simp
  }
  show "length (requests (snd (httpGet h w' u rs))) \<le> length (requests w') + 4"
    using httpGet_requests_bound [of h w' u rs] by simp
qed

theorem httpGet_three_redirects_witness:
  "httpGet (example_host chain_table) empty_world ''http://a/0'' [] =
     (Resolved \<lparr>statusCode = 200, location = None, body = [1, 2, 3]\<rparr>,
      empty_world\<lparr>requests := [''http://a/0'', ''http://a/1'', ''http://a/2'', ''https://b/3'']\<rparr>)
   \<and> httpGet (example_host chain_table) empty_world ''http://c/0'' [] =
     (Uncaught (AssertionError ''redirects.length <= 3''),
      empty_world\<lparr>requests := [''http://c/0'', ''http://c/1'', ''http://c/2'', ''http://c/3'']\<rparr>)"
  using httpGet_three_redirects [of "''http://a/0''" "''http://a/1''" "''http://a/2''" "''https://b/3''"
      "example_host chain_table" empty_world
      "\<lparr>statusCode = 302, location = Some ''http://a/1'', body = []\<rparr>"
      "\<lparr>statusCode = 302, location = Some ''http://a/2'', body = []\<rparr>"
      "\<lparr>statusCode = 302, location = Some ''https://b/3'', body = []\<rparr>"
      "\<lparr>statusCode = 200, location = None, body = [1, 2, 3]\<rparr>"]
    httpGet_three_redirects [of "''http://c/0''" "''http://c/1''" "''http://c/2''" "''http://c/3''"
      "example_host chain_table" empty_world
      "\<lparr>statusCode = 302, location = Some ''http://c/1'', body = []\<rparr>"
      "\<lparr>statusCode = 302, location = Some ''http://c/2'', body = []\<rparr>"
      "\<lparr>statusCode = 302, location = Some ''http://c/3'', body = []\<rparr>"
      "\<lparr>statusCode = 302, location = Some ''http://c/4'', body = []\<rparr>"
      "''http://c/4''"]
  by (simp add: example_host_def table_server_def chain_table_def redirect_to_def ok_reply_def
      empty_world_def valid_url_def startsWith_def is_redirect_def)

section \<open>Resolving the version\<close>

lemma str_split_nonempty: "str_split sep s \<noteq> []"
  by (induction sep s rule: str_split.induct) (auto split: list.splits)

lemma str_split_none: "\<not> sublist sep s \<Longrightarrow> str_split sep s = [s]"
proof (induction sep s rule: str_split.induct)
  case (1 sep)
  then show ?case by simp
next
  case (2 sep c cs)
  have np: "\<not> prefix sep (c # cs)" using "2.prems" prefix_imp_sublist by blast
  have "\<not> sublist sep cs" using "2.prems" by (auto simp: sublist_Cons_right)
  with 2 np show ?case by simp
qed

lemma str_split_skip:
  "\<not> prefix sep (c # s) \<Longrightarrow> str_split sep s = r # rs \<Longrightarrow> str_split sep (c # s) = (c # r) # rs"
  by simp

lemma str_split_cut:
  "sep \<noteq> [] \<Longrightarrow> prefix sep (c # s) \<Longrightarrow>
     str_split sep (c # s) = [] # str_split sep (drop (length sep) (c # s))"
  by simp

lemma str_split_slash_v:
  "\<exists>xs. xs \<noteq> [] \<and> str_split ''/v'' (pre @ ''/v'' @ post) = xs @ str_split ''/v'' post"
proof (induction "length pre" arbitrary: pre rule: less_induct)
  case less
  show ?case
  proof (cases pre)
    case Nil
    then show ?thesis by simp
  next
    case (Cons c cs)
    show ?thesis
    proof (cases "prefix ''/v'' (c # cs @ ''/v'' @ post)")
      case True
      then obtain cs' where cs: "c = CHR ''/''" "cs = CHR ''v'' # cs'"
        by (cases cs) auto
      obtain xs where "xs \<noteq> []" "str_split ''/v'' (cs' @ ''/v'' @ post) = xs @ str_split ''/v'' post"
        using less [of cs'] Cons cs by auto
      moreover have "str_split ''/v'' (pre @ ''/v'' @ post) = [] # str_split ''/v'' (cs' @ ''/v'' @ post)"
        using str_split_cut [OF _ True] Cons cs by simp
      ultimately show ?thesis by simp
    next
      case False
      obtain xs where xs: "xs \<noteq> []" "str_split ''/v'' (cs @ ''/v'' @ post) = xs @ str_split ''/v'' post"
        using less [of cs] Cons by auto
      then obtain y ys where y: "xs = y # ys" by (cases xs) auto
      have "str_split ''/v'' (c # cs @ ''/v'' @ post) = (c # y) # ys @ str_split ''/v'' post"
        using str_split_skip [OF False] xs y by simp
      then have "str_split ''/v'' (pre @ ''/v'' @ post) = ((c # y) # ys) @ str_split ''/v'' post"
        using Cons by simp
      then show ?thesis by blast
    qed
  qed
qed

lemma last_split_slash_v:
  assumes "\<not> sublist ''/v'' post"
  shows "last (str_split ''/v'' (pre @ ''/v'' @ post)) = post"
proof -
  obtain xs where "str_split ''/v'' (pre @ ''/v'' @ post) = xs @ str_split ''/v'' post"
    using str_split_slash_v by blast
  then show ?thesis using str_split_none [OF assms] by simp
qed

lemma httpGetRedirect_latest_requests:
  "requests (snd (httpGetRedirect h w latestUrl)) = requests w @ [latestUrl]"
  by (auto simp: httpGetRedirect_def send_request_def latestUrl_def valid_url_def startsWith_def
      split: reply.splits option.splits)

lemma httpGetRedirect_latest_not_Thrown:
  "fst (httpGetRedirect h w latestUrl) \<noteq> Thrown e"
  by (auto simp: httpGetRedirect_def send_request_def latestUrl_def valid_url_def startsWith_def
      split: reply.splits option.splits)

text \<open>
  How the version is resolved. A version other than \<open>latest\<close> is used as it is, and nothing
  is requested. For \<open>undefined\<close> or \<open>latest\<close>, one request goes to the latest-release URL; when
  it resolves with a location that has \<open>/v\<close> followed by a rest without \<open>/v\<close>, the version is
  that rest; when it is rejected, \<open>ensureInstalled\<close> is rejected with the error wrapped in
  \<open>bufbuild failed to retrieve latest buf version number\<close>; and \<open>ensureInstalled\<close> resolves
  only if the request resolved.
\<close>

lemma resolveVersion_cases:
  "(v \<noteq> ''latest'' \<longrightarrow> resolveVersion h w (Some v) = (Resolved v, w))
   \<and> (ver = None \<or> ver = Some ''latest'' \<longrightarrow>
        requests (snd (resolveVersion h w ver)) = requests w @ [latestUrl]
        \<and> (httpGetRedirect h w latestUrl = (Resolved (pre @ ''/v'' @ post), w') \<and> \<not> sublist ''/v'' post \<longrightarrow>
             resolveVersion h w ver = (Resolved post, w'))
        \<and> (httpGetRedirect h w latestUrl = (Rejected e, w') \<longrightarrow>
             ensureInstalled h w ver =
               (Rejected (Error (''bufbuild failed to retrieve latest buf version number: '' @ toString e)), w'))
        \<and> (httpGetRedirect h w latestUrl = (Uncaught e, w') \<longrightarrow>
             ensureInstalled h w ver = (Uncaught e, w'))
        \<and> ((\<forall>l. fst (httpGetRedirect h w latestUrl) \<noteq> Resolved l) \<longrightarrow>
             (\<forall>d. fst (ensureInstalled h w ver) \<noteq> Resolved d)))"
proof (intro conjI impI)
  show "resolveVersion h w (Some v) = (Resolved v, w)" if "v \<noteq> ''latest''"
    using that by (simp add: resolveVersion_def)
next
  assume l: "ver = None \<or> ver = Some ''latest''"
  then have rv: "resolveVersion h w ver =
      (case httpGetRedirect h w latestUrl of
         (Resolved latestLocation, w') \<Rightarrow> (Resolved (last (str_split ''/v'' latestLocation)), w')
       | (Rejected e, w') \<Rightarrow> (Rejected (Error (retrieve_message e)), w')
       | (Thrown e, w') \<Rightarrow> (Rejected (Error (retrieve_message e)), w')
       | (Uncaught e, w') \<Rightarrow> (Uncaught e, w')
       | (NoResponse, w') \<Rightarrow> (NoResponse, w'))"
    by (auto simp: resolveVersion_def)
  show "requests (snd (resolveVersion h w ver)) = requests w @ [latestUrl]"
    using httpGetRedirect_latest_requests [of h w]
    by (cases "httpGetRedirect h w latestUrl") (auto simp: rv split: outcome.splits)
  show "resolveVersion h w ver = (Resolved post, w')"
    if "httpGetRedirect h w latestUrl = (Resolved (pre @ ''/v'' @ post), w') \<and> \<not> sublist ''/v'' post"
    using that last_split_slash_v [of post pre] by (simp add: rv)
  show "ensureInstalled h w ver =
          (Rejected (Error (''bufbuild failed to retrieve latest buf version number: '' @ toString e)), w')"
    if "httpGetRedirect h w latestUrl = (Rejected e, w')"
    using that by (simp add: ensureInstalled_def rv retrieve_message_def)
  show "ensureInstalled h w ver = (Uncaught e, w')"
    if "httpGetRedirect h w latestUrl = (Uncaught e, w')"
    using that by (simp add: ensureInstalled_def rv)
  show "\<forall>d. fst (ensureInstalled h w ver) \<noteq> Resolved d"
    if "\<forall>l. fst (httpGetRedirect h w latestUrl) \<noteq> Resolved l"
    using that by (auto simp: ensureInstalled_def rv split: prod.splits outcome.splits)
qed

lemma ex_latest_redirect:
  "httpGetRedirect (example_host latest_table) empty_world latestUrl =
     (Resolved (''https://github.com/bufbuild/buf/releases/tag'' @ ''/v'' @ ''1.6.0''),
      empty_world\<lparr>requests := [latestUrl]\<rparr>)"
  by code_simp

lemma ex_404:
  "httpGetRedirect (example_host [(latestUrl, status_reply 404)]) empty_world latestUrl =
     (Rejected (Error ''HTTP 404 for https://github.com/bufbuild/buf/releases/latest''),
      empty_world\<lparr>requests := [latestUrl]\<rparr>)"
  by code_simp

lemma ex_no_sublist: "\<not> sublist ''/v'' ''1.6.0''"
  by code_simp

lemma resolveVersion_cases_example:
  "resolveVersion (example_host latest_table) empty_world (Some ''1.6.0'') =
     (Resolved ''1.6.0'', empty_world)
   \<and> resolveVersion (example_host latest_table) empty_world None =
     (Resolved ''1.6.0'', empty_world\<lparr>requests := [latestUrl]\<rparr>)
   \<and> ensureInstalled (example_host [(latestUrl, status_reply 404)]) empty_world (Some ''latest'') =
     (Rejected (Error (''bufbuild failed to retrieve latest buf version number: '' @
        ''Error: HTTP 404 for https://github.com/bufbuild/buf/releases/latest'')),
      empty_world\<lparr>requests := [latestUrl]\<rparr>)"
  using resolveVersion_cases [of "''1.6.0''" "example_host latest_table" empty_world None
      "''https://github.com/bufbuild/buf/releases/tag''" "''1.6.0''"
      "empty_world\<lparr>requests := [latestUrl]\<rparr>"]
    resolveVersion_cases [of "''1.6.0''" "example_host [(latestUrl, status_reply 404)]" empty_world
      "Some ''latest''" "[]" "[]" "empty_world\<lparr>requests := [latestUrl]\<rparr>"
      "Error ''HTTP 404 for https://github.com/bufbuild/buf/releases/latest''"]
    ex_latest_redirect ex_404 ex_no_sublist
  by (simp add: toString_def)

text \<open>
  Claim C5. The \<open>catch\<close> block of \<open>ensureInstalled\<close> wraps what the fetch of the latest
  location throws or rejects with. One failure escapes it: a redirect without a \<open>location\<close>
  header fails the assertion inside the response callback, and \<open>ensureInstalled\<close> ends on the
  uncaught assertion error instead of the wrapped error.
\<close>

theorem ensureInstalled_no_location_uncaught:
  "ensureInstalled (example_host no_location_table) empty_world None =
     (Uncaught (AssertionError ''location && location.length > 0''),
      empty_world\<lparr>requests := [latestUrl]\<rparr>)"
  by (simp add: ensureInstalled_def resolveVersion_def httpGetRedirect_def send_request_def
      example_host_def table_server_def no_location_table_def empty_world_def
      latestUrl_def valid_url_def startsWith_def)

section \<open>Searching the PATH\<close>

lemma find_map_first:
  "find P (map f xs) = Some c \<Longrightarrow>
     \<exists>ps p qs. xs = ps @ p # qs \<and> c = f p \<and> P c \<and> (\<forall>q\<in>set ps. \<not> P (f q))"
proof (induction xs)
  case Nil
  then show ?case by simp
next
  case (Cons x xs)
  show ?case
  proof (cases "P (f x)")
    case True
    with Cons.prems have "c = f x" by simp
    with True have "x # xs = [] @ x # xs \<and> c = f x \<and> P c \<and> (\<forall>q\<in>set []. \<not> P (f q))" by simp
    then show ?thesis by blast
  next
    case False
    with Cons obtain ps p qs where
      "xs = ps @ p # qs" "c = f p" "P c" "\<forall>q\<in>set ps. \<not> P (f q)" by auto
    with False have "x # xs = (x # ps) @ p # qs \<and> c = f p \<and> P c \<and> (\<forall>q\<in>set (x # ps). \<not> P (f q))"
      by simp
    then show ?thesis by blast
  qed
qed

lemma findBufInPath_candidates_eq:
  "findBufInPath_candidates h s =
     map (\<lambda>p. expandHome h (host_join h [p, bufName h]))
       (filter (\<lambda>p. \<not> endsWith p (''node_modules'' @ host_sep h @ ''.bin'') \<and> \<not> endsWith p (''.npm-global'' @ host_sep h @ ''bin''))
         (str_split (host_delimiter h) s))"
  by (auto simp: findBufInPath_candidates_def intro: filter_cong)

text \<open>
  Claim C9. An unset PATH gives no result. The PATH is split at the delimiter of the host, and
  the entries that end with \<open>node_modules\<close>, the separator of the host and \<open>.bin\<close>, or with
  \<open>.npm-global\<close>, the separator and \<open>bin\<close>, are dropped before the file system is asked: when
  every entry whose candidate exists is such an entry, there is no result. A result is the
  candidate of the first kept entry, in the order of the PATH, whose candidate exists, and
  there is no result only if no kept entry has a candidate that exists. The candidate of an
  entry is the entry joined with the file name of the host, with a leading \<open>~\<close> replaced by the
  home directory. On a host whose platform does not start with \<open>win\<close> the delimiter is \<open>:\<close>,
  the separator \<open>/\<close> and the file name \<open>buf\<close>; on a Windows host they are \<open>;\<close>, the backslash
  and \<open>buf.exe\<close>.
\<close>

theorem findBufInPath_first_candidate:
  "findBufInPath h w None = None
   \<and> ((\<forall>p\<in>set (str_split (host_delimiter h) s).
          existsSync w (expandHome h (host_join h [p, bufName h])) \<longrightarrow>
            endsWith p (''node_modules'' @ host_sep h @ ''.bin'') \<or> endsWith p (''.npm-global'' @ host_sep h @ ''bin'')) \<longrightarrow>
        findBufInPath h w (Some s) = None)
   \<and> (findBufInPath h w (Some s) = Some c \<longrightarrow>
        (\<exists>ps p qs.
           filter (\<lambda>p. \<not> endsWith p (''node_modules'' @ host_sep h @ ''.bin'') \<and> \<not> endsWith p (''.npm-global'' @ host_sep h @ ''bin''))
             (str_split (host_delimiter h) s) = ps @ p # qs
           \<and> c = expandHome h (host_join h [p, bufName h]) \<and> existsSync w c
           \<and> (\<forall>q\<in>set ps. \<not> existsSync w (expandHome h (host_join h [q, bufName h])))))
   \<and> (findBufInPath h w (Some s) = None \<longrightarrow>
        (\<forall>p\<in>set (str_split (host_delimiter h) s).
           \<not> endsWith p (''node_modules'' @ host_sep h @ ''.bin'') \<and> \<not> endsWith p (''.npm-global'' @ host_sep h @ ''bin'') \<longrightarrow>
             \<not> existsSync w (expandHome h (host_join h [p, bufName h]))))
   \<and> (\<not> startsWith (os_platform h) ''win'' \<longrightarrow>
        host_delimiter h = '':'' \<and> host_sep h = ''/'' \<and> bufName h = ''buf'' \<and> host_join h = path_join)
   \<and> (startsWith (os_platform h) ''win'' \<longrightarrow>
        host_delimiter h = '';'' \<and> host_sep h = [CHR 0x5C] \<and> bufName h = ''buf.exe''
        \<and> host_join h = win32_join h)"
proof (intro conjI impI)
  show "findBufInPath h w None = None" by (simp add: findBufInPath_def)
  show "findBufInPath h w (Some s) = None"
    if "\<forall>p\<in>set (str_split (host_delimiter h) s).
          existsSync w (expandHome h (host_join h [p, bufName h])) \<longrightarrow>
            endsWith p (''node_modules'' @ host_sep h @ ''.bin'') \<or> endsWith p (''.npm-global'' @ host_sep h @ ''bin'')"
    using that by (auto simp: findBufInPath_def findBufInPath_candidates_eq find_None_iff)
  show "\<exists>ps p qs.
           filter (\<lambda>p. \<not> endsWith p (''node_modules'' @ host_sep h @ ''.bin'') \<and> \<not> endsWith p (''.npm-global'' @ host_sep h @ ''bin''))
             (str_split (host_delimiter h) s) = ps @ p # qs
           \<and> c = expandHome h (host_join h [p, bufName h]) \<and> existsSync w c
           \<and> (\<forall>q\<in>set ps. \<not> existsSync w (expandHome h (host_join h [q, bufName h])))"
    if "findBufInPath h w (Some s) = Some c"
    using that find_map_first [of "existsSync w" "\<lambda>p. expandHome h (host_join h [p, bufName h])" _ c]
    by (simp add: findBufInPath_def findBufInPath_candidates_eq)
  show "\<forall>p\<in>set (str_split (host_delimiter h) s).
           \<not> endsWith p (''node_modules'' @ host_sep h @ ''.bin'') \<and> \<not> endsWith p (''.npm-global'' @ host_sep h @ ''bin'') \<longrightarrow>
             \<not> existsSync w (expandHome h (host_join h [p, bufName h]))"
    if "findBufInPath h w (Some s) = None"
    using that by (auto simp: findBufInPath_def findBufInPath_candidates_eq find_None_iff)
  show "host_delimiter h = '':''" "host_sep h = ''/''" "bufName h = ''buf''" "host_join h = path_join"
    if "\<not> startsWith (os_platform h) ''win''"
    using that
    by (auto simp: host_delimiter_def host_sep_def bufName_def host_join_def path_delimiter_def path_sep_def)
  show "host_delimiter h = '';''" "host_sep h = [CHR 0x5C]" "bufName h = ''buf.exe''"
    "host_join h = win32_join h"
    if "startsWith (os_platform h) ''win''"
    using that
    by (auto simp: host_delimiter_def host_sep_def bufName_def host_join_def win32_delimiter_def win32_sep_def)
qed

lemma ex_shim_only:
  "\<forall>p\<in>set (str_split (host_delimiter (example_host [])) ''/proj/node_modules/.bin:~/.npm-global/bin'').
      existsSync installed_world
        (expandHome (example_host []) (host_join (example_host []) [p, bufName (example_host [])])) \<longrightarrow>
        endsWith p (''node_modules'' @ host_sep (example_host []) @ ''.bin'')
        \<or> endsWith p (''.npm-global'' @ host_sep (example_host []) @ ''bin'')"
  by code_simp

lemma ex_posix: "\<not> startsWith (os_platform (example_host [])) ''win''"
  by code_simp

lemma ex_windows: "startsWith (os_platform windows_host) ''win''"
  by code_simp

lemma ex_shim_exists:
  "existsSync installed_world ''/proj/node_modules/.bin/buf''"
  by code_simp

lemma ex_path_found:
  "findBufInPath (example_host []) installed_world (Some ''/proj/node_modules/.bin:/sbin:/usr/bin'') =
     Some ''/usr/bin/buf''"
  by code_simp

theorem findBufInPath_first_candidate_witness:
  "existsSync installed_world ''/proj/node_modules/.bin/buf''
   \<and> findBufInPath (example_host []) installed_world (Some ''/proj/node_modules/.bin:~/.npm-global/bin'') = None
   \<and> findBufInPath (example_host []) installed_world (Some ''/proj/node_modules/.bin:/sbin:/usr/bin'') =
        Some ''/usr/bin/buf''
   \<and> host_delimiter (example_host []) = '':'' \<and> bufName (example_host []) = ''buf''
   \<and> host_delimiter windows_host = '';'' \<and> host_sep windows_host = [CHR 0x5C]
   \<and> bufName windows_host = ''buf.exe''"
  using findBufInPath_first_candidate [of "example_host []" installed_world
      "''/proj/node_modules/.bin:~/.npm-global/bin''" "[]"]
    findBufInPath_first_candidate [of windows_host installed_world "[]" "[]"]
    ex_shim_only ex_shim_exists ex_path_found ex_posix ex_windows
  by blast

section \<open>The check after the installation\<close>

lemma resolve_console [simp]: "resolve (w\<lparr>console := c\<rparr>) p = resolve w p"
  by (simp add: resolve_def start_dir_def)

lemma existsSync_console [simp]: "existsSync (w\<lparr>console := c\<rparr>) p = existsSync w p"
  by (simp add: existsSync_def)

lemma lstatSync_console [simp]: "lstatSync (w\<lparr>console := c\<rparr>) p = lstatSync w p"
  by (simp add: lstatSync_def cong: option.case_cong)

lemma readdirSync_console [simp]: "readdirSync (w\<lparr>console := c\<rparr>) p = readdirSync w p"
  by (simp add: readdirSync_def cong: option.case_cong if_cong)

lemma listInstalled_loop_console [simp]:
  "listInstalled_loop (w\<lparr>console := c\<rparr>) d vs = listInstalled_loop w d vs"
  by (induction vs) (simp_all add: Let_def cong: sum.case_cong if_cong)

lemma listInstalled_console [simp]: "listInstalled (w\<lparr>console := c\<rparr>) d = listInstalled w d"
  by (simp add: listInstalled_def cong: sum.case_cong)

lemma find_Some_set: "find P xs = Some x \<Longrightarrow> x \<in> set xs \<and> P x"
  by (induction xs) (auto split: if_splits)

text \<open>
  Claim C8. An entry that \<open>ensureInstalled\<close> resolves with is an entry of the listing of the
  install directory in the final state, and its name is the release name of the host for some
  version. When the release was downloaded and saved and the listing afterwards has no entry
  with the release name, \<open>ensureInstalled\<close> is rejected with \<open>bufbuild failed to install buf\<close>
  and the version.
\<close>

theorem ensureInstalled_verified:
  "(ensureInstalled h w ver = (Resolved e, w') \<longrightarrow>
      (\<exists>listed v. listInstalled w' (standardInstallDirectory h) = Inr listed \<and> e \<in> set listed
         \<and> makeReleaseName \<lparr>platform = os_platform h, arch = os_arch h, version = v\<rparr> = Inr (name e)))
   \<and> (resolveVersion h w ver = (Resolved v, w1)
        \<and> makeReleaseName \<lparr>platform = os_platform h, arch = os_arch h, version = v\<rparr> = Inr rn
        \<and> listInstalled w1 (standardInstallDirectory h) = Inr listed1
        \<and> find (\<lambda>i. name i = rn) listed1 = None
        \<and> httpDownload h w1 (downloadUrl rn) = (Resolved content, w2)
        \<and> saveRelease h w2 rn content = (Inr (), w3)
        \<and> listInstalled w3 (standardInstallDirectory h) = Inr listed3
        \<and> find (\<lambda>i. name i = rn) listed3 = None \<longrightarrow>
      ensureInstalled h w ver = (Rejected (Error (''bufbuild failed to install buf v'' @ v @ ''.'')), w3))"
proof (intro conjI impI)
  assume "ensureInstalled h w ver = (Resolved e, w')"
  then show "\<exists>listed v. listInstalled w' (standardInstallDirectory h) = Inr listed \<and> e \<in> set listed
         \<and> makeReleaseName \<lparr>platform = os_platform h, arch = os_arch h, version = v\<rparr> = Inr (name e)"
    by (auto simp: ensureInstalled_def split: prod.splits outcome.splits sum.splits option.splits
        dest!: find_Some_set)
next
  assume "resolveVersion h w ver = (Resolved v, w1)
        \<and> makeReleaseName \<lparr>platform = os_platform h, arch = os_arch h, version = v\<rparr> = Inr rn
        \<and> listInstalled w1 (standardInstallDirectory h) = Inr listed1
        \<and> find (\<lambda>i. name i = rn) listed1 = None
        \<and> httpDownload h w1 (downloadUrl rn) = (Resolved content, w2)
        \<and> saveRelease h w2 rn content = (Inr (), w3)
        \<and> listInstalled w3 (standardInstallDirectory h) = Inr listed3
        \<and> find (\<lambda>i. name i = rn) listed3 = None"
  then show "ensureInstalled h w ver = (Rejected (Error (''bufbuild failed to install buf v'' @ v @ ''.'')), w3)"
    by (simp add: ensureInstalled_def install_message_def)
qed

lemma ex_hit:
  "ensureInstalled (example_host latest_table) installed_world (Some ''1.6.0'') =
     (Resolved \<lparr>name = ''1.6.0/buf-Darwin-arm64'', version = ''1.6.0'',
                bufPath = ''/opt/bufbuild/installed/1.6.0/buf-Darwin-arm64''\<rparr>, installed_world)"
  by code_simp

lemma ex_nested_resolve:
  "resolveVersion (example_host latest_table) empty_world (Some ''1.6.0/rc1'') =
     (Resolved ''1.6.0/rc1'', empty_world)"
  by code_simp

lemma ex_nested_name:
  "makeReleaseName \<lparr>platform = os_platform (example_host latest_table),
      arch = os_arch (example_host latest_table), version = ''1.6.0/rc1''\<rparr> =
     Inr ''1.6.0/rc1/buf-Darwin-arm64''"
  by code_simp

lemma ex_nested_list_before:
  "listInstalled empty_world (standardInstallDirectory (example_host latest_table)) = Inr []"
  by code_simp

lemma ex_nested_download:
  "httpDownload (example_host latest_table) empty_world (downloadUrl ''1.6.0/rc1/buf-Darwin-arm64'') =
     (Resolved [9, 9], empty_world\<lparr>requests := [downloadUrl ''1.6.0/rc1/buf-Darwin-arm64'']\<rparr>)"
  by code_simp

lemma ex_nested_save:
  "saveRelease (example_host latest_table)
     (empty_world\<lparr>requests := [downloadUrl ''1.6.0/rc1/buf-Darwin-arm64'']\<rparr>)
     ''1.6.0/rc1/buf-Darwin-arm64'' [9, 9] =
     (Inr (), nested_world\<lparr>requests := [downloadUrl ''1.6.0/rc1/buf-Darwin-arm64'']\<rparr>)"
  by code_simp

lemma ex_nested_list_after:
  "listInstalled (nested_world\<lparr>requests := [downloadUrl ''1.6.0/rc1/buf-Darwin-arm64'']\<rparr>)
     (standardInstallDirectory (example_host latest_table)) = Inr []"
  by code_simp

theorem ensureInstalled_verified_witness:
  "ensureInstalled (example_host latest_table) empty_world (Some ''1.6.0/rc1'') =
     (Rejected (Error ''bufbuild failed to install buf v1.6.0/rc1.''),
      nested_world\<lparr>requests := [downloadUrl ''1.6.0/rc1/buf-Darwin-arm64'']\<rparr>)
   \<and> ensureInstalled (example_host latest_table) installed_world (Some ''1.6.0'') =
     (Resolved \<lparr>name = ''1.6.0/buf-Darwin-arm64'', version = ''1.6.0'',
                bufPath = ''/opt/bufbuild/installed/1.6.0/buf-Darwin-arm64''\<rparr>, installed_world)
   \<and> (\<exists>listed. listInstalled installed_world (standardInstallDirectory (example_host latest_table)) = Inr listed
        \<and> \<lparr>name = ''1.6.0/buf-Darwin-arm64'', version = ''1.6.0'',
                bufPath = ''/opt/bufbuild/installed/1.6.0/buf-Darwin-arm64''\<rparr> \<in> set listed)"
proof -
  have a: "ensureInstalled (example_host latest_table) empty_world (Some ''1.6.0/rc1'') =
     (Rejected (Error (''bufbuild failed to install buf v'' @ ''1.6.0/rc1'' @ ''.'')),
      nested_world\<lparr>requests := [downloadUrl ''1.6.0/rc1/buf-Darwin-arm64'']\<rparr>)"
    using ensureInstalled_verified [where h = "example_host latest_table" and w = empty_world
      and ver = "Some ''1.6.0/rc1''" and v = "''1.6.0/rc1''" and ?w1.0 = empty_world
      and rn = "''1.6.0/rc1/buf-Darwin-arm64''" and ?listed1.0 = "[]" and content = "[9, 9]"
      and ?w2.0 = "empty_world\<lparr>requests := [downloadUrl ''1.6.0/rc1/buf-Darwin-arm64'']\<rparr>"
      and ?w3.0 = "nested_world\<lparr>requests := [downloadUrl ''1.6.0/rc1/buf-Darwin-arm64'']\<rparr>"
      and ?listed3.0 = "[]", THEN conjunct2]
      ex_nested_resolve ex_nested_name ex_nested_list_before ex_nested_download
      ex_nested_save ex_nested_list_after
    by simp
  have b: "\<exists>listed v. listInstalled installed_world (standardInstallDirectory (example_host latest_table)) = Inr listed
        \<and> \<lparr>name = ''1.6.0/buf-Darwin-arm64'', version = ''1.6.0'',
                bufPath = ''/opt/bufbuild/installed/1.6.0/buf-Darwin-arm64''\<rparr> \<in> set listed
        \<and> makeReleaseName \<lparr>platform = os_platform (example_host latest_table),
             arch = os_arch (example_host latest_table), version = v\<rparr> =
             Inr (name \<lparr>name = ''1.6.0/buf-Darwin-arm64'', version = ''1.6.0'',
                bufPath = ''/opt/bufbuild/installed/1.6.0/buf-Darwin-arm64''\<rparr>)"
    using ensureInstalled_verified [where h = "example_host latest_table" and w = installed_world
      and ver = "Some ''1.6.0''" and w' = installed_world
      and e = "\<lparr>name = ''1.6.0/buf-Darwin-arm64'', version = ''1.6.0'',
                bufPath = ''/opt/bufbuild/installed/1.6.0/buf-Darwin-arm64''\<rparr>", THEN conjunct1]
      ex_hit
    by blast
  from a have a': "ensureInstalled (example_host latest_table) empty_world (Some ''1.6.0/rc1'') =
     (Rejected (Error ''bufbuild failed to install buf v1.6.0/rc1.''),
      nested_world\<lparr>requests := [downloadUrl ''1.6.0/rc1/buf-Darwin-arm64'']\<rparr>)"
    by simp
  from b have b': "\<exists>listed. listInstalled installed_world (standardInstallDirectory (example_host latest_table)) = Inr listed
        \<and> \<lparr>name = ''1.6.0/buf-Darwin-arm64'', version = ''1.6.0'',
                bufPath = ''/opt/bufbuild/installed/1.6.0/buf-Darwin-arm64''\<rparr> \<in> set listed"
    by blast
  show ?thesis using a' b' ex_hit by blast
qed


section \<open>Paths and the file system\<close>

subsection \<open>Splitting and joining at a separator character\<close>

lemma str_split_char_Cons:
  "str_split [c] (x # xs) =
     (if x = c then [] # str_split [c] xs
      else (case str_split [c] xs of [] \<Rightarrow> [[x]] | r # rs \<Rightarrow> (x # r) # rs))"
  by auto

lemma str_split_char_free: "c \<notin> set s \<Longrightarrow> str_split [c] s = [s]"
  by (induction s) (auto simp: str_split_char_Cons simp del: str_split.simps(2))

lemma str_split_char_append:
  "str_split [c] (a @ c # b) = str_split [c] a @ str_split [c] b"
proof (induction a)
  case Nil
  then show ?case by simp
next
  case (Cons x a)
  obtain r rs where r: "str_split [c] a = r # rs"
    using str_split_nonempty [of "[c]" a] by (cases "str_split [c] a") auto
  with Cons show ?case
    by (simp add: str_split_char_Cons del: str_split.simps(2))
qed

lemma str_split_char_elems: "x \<in> set (str_split [c] s) \<Longrightarrow> c \<notin> set x"
proof (induction s arbitrary: x)
  case Nil
  then show ?case by simp
next
  case (Cons y s)
  obtain r rs where r: "str_split [c] s = r # rs"
    using str_split_nonempty [of "[c]" s] by (cases "str_split [c] s") auto
  with Cons show ?case
    by (auto simp: str_split_char_Cons simp del: str_split.simps(2) split: if_splits)
qed

lemma array_join_Cons:
  "xs \<noteq> [] \<Longrightarrow> array_join sep (x # xs) = x @ sep @ array_join sep xs"
  by (cases xs) simp_all


lemma str_split_array_join:
  "xs \<noteq> [] \<Longrightarrow> \<forall>x\<in>set xs. c \<notin> set x \<Longrightarrow> str_split [c] (array_join [c] xs) = xs"
proof (induction xs)
  case Nil
  then show ?case by simp
next
  case (Cons x xs)
  show ?case
  proof (cases "xs = []")
    case True
    with Cons.prems show ?thesis by (simp add: str_split_char_free)
  next
    case False
    with Cons have "str_split [c] (array_join [c] xs) = xs" by simp
    moreover have "str_split [c] x = [x]" using Cons.prems by (simp add: str_split_char_free)
    ultimately show ?thesis
      using False str_split_char_append [of c x "array_join [c] xs"]
      by (simp add: array_join_Cons)
  qed
qed

lemma array_join_eq_Nil:
  "array_join sep xs = [] \<Longrightarrow> \<forall>x\<in>set xs. x \<noteq> [] \<Longrightarrow> xs = []"
  by (induction sep xs rule: array_join.induct) auto

lemma hd_array_join:
  "xs \<noteq> [] \<Longrightarrow> hd xs \<noteq> [] \<Longrightarrow> hd (array_join sep xs) = hd (hd xs)"
  by (induction sep xs rule: array_join.induct) auto

lemma array_join_not_Nil:
  "xs \<noteq> [] \<Longrightarrow> last xs \<noteq> [] \<Longrightarrow> array_join sep xs \<noteq> []"
  by (induction sep xs rule: array_join.induct) auto

lemma last_array_join:
  "xs \<noteq> [] \<Longrightarrow> last xs \<noteq> [] \<Longrightarrow> last (array_join sep xs) = last (last xs)"
proof (induction sep xs rule: array_join.induct)
  case (3 sep x y ys)
  then have "array_join sep (y # ys) \<noteq> []" using array_join_not_Nil [of "y # ys" sep] by simp
  with 3 show ?case by simp
qed simp_all

subsection \<open>Normalized paths\<close>

lemma valid_name_simps:
  "valid_name v \<Longrightarrow> v \<noteq> []" "valid_name v \<Longrightarrow> v \<noteq> ''.''" "valid_name v \<Longrightarrow> v \<noteq> ''..''"
  "valid_name v \<Longrightarrow> CHR ''/'' \<notin> set v"
  by (simp_all add: valid_name_def)

lemma norm_step_name: "valid_name v \<Longrightarrow> norm_step al acc v = acc @ [v]"
  by (simp add: norm_step_def valid_name_def)

lemma foldl_norm_step_names:
  "list_all valid_name ns \<Longrightarrow> foldl (norm_step al) acc ns = acc @ ns"
  by (induction ns arbitrary: acc) (simp_all add: norm_step_name)

lemma foldl_norm_step_dots:
  "foldl (norm_step True) (replicate j ''..'') (replicate k ''..'') = replicate (j + k) ''..''"
proof (induction k arbitrary: j)
  case 0
  then show ?case by simp
next
  case (Suc k)
  have "norm_step True (replicate j ''..'') ''..'' = replicate (Suc j) ''..''"
    by (cases j) (simp_all add: norm_step_def replicate_append_same)
  then show ?case using Suc [of "Suc j"] by simp
qed

lemma norm_formI:
  "xs = replicate k ''..'' @ names \<Longrightarrow> list_all valid_name names \<Longrightarrow> al \<or> k = 0 \<Longrightarrow> norm_form al xs"
  unfolding norm_form_def by blast

lemma norm_formE:
  assumes "norm_form al xs"
  obtains k names where "xs = replicate k ''..'' @ names" "list_all valid_name names" "al \<or> k = 0"
  using assms unfolding norm_form_def by blast

lemma norm_form_fixpoint:
  assumes "norm_form al xs"
  shows "foldl (norm_step al) [] xs = xs"
proof -
  obtain k names where xs: "xs = replicate k ''..'' @ names" "list_all valid_name names" "al \<or> k = 0"
    using assms by (rule norm_formE)
  show ?thesis
  proof (cases "k = 0")
    case True
    with xs show ?thesis by (simp add: foldl_norm_step_names)
  next
    case False
    with xs have al by simp
    then show ?thesis
      using xs(1,2) foldl_norm_step_dots [of 0 k] by (simp add: foldl_norm_step_names)
  qed
qed

lemma norm_form_append:
  assumes "norm_form al xs" and "list_all valid_name ns"
  shows "norm_form al (xs @ ns)"
proof -
  obtain k names where xs: "xs = replicate k ''..'' @ names" "list_all valid_name names" "al \<or> k = 0"
    using assms(1) by (rule norm_formE)
  show ?thesis
  proof (rule norm_formI)
    show "xs @ ns = replicate k ''..'' @ (names @ ns)" using xs(1) by simp
    show "list_all valid_name (names @ ns)" using xs(2) assms(2) by simp
    show "al \<or> k = 0" by (rule xs(3))
  qed
qed

lemma norm_form_Nil: "norm_form al []"
  by (rule norm_formI [of _ 0 "[]"]) simp_all


lemma norm_form_elem:
  assumes "norm_form al xs" and "x \<in> set xs"
  shows "x \<noteq> [] \<and> CHR ''/'' \<notin> set x"
proof -
  obtain k names where xs: "xs = replicate k ''..'' @ names" "list_all valid_name names"
    using assms(1) by (rule norm_formE)
  from assms(2) xs(1) have "x = ''..'' \<or> x \<in> set names" by auto
  then show ?thesis
  proof
    assume "x = ''..''"
    then show ?thesis by simp
  next
    assume "x \<in> set names"
    with xs(2) have "valid_name x" by (simp add: list_all_iff)
    then show ?thesis by (simp add: valid_name_def)
  qed
qed

lemma norm_form_step:
  assumes "norm_form al acc" and "CHR ''/'' \<notin> set c"
  shows "norm_form al (norm_step al acc c)"
proof -
  obtain k names where acc: "acc = replicate k ''..'' @ names" "list_all valid_name names" "al \<or> k = 0"
    using assms(1) by (rule norm_formE)
  consider (skip) "c = [] \<or> c = ''.''" | (up) "c = ''..''" | (name) "valid_name c"
    using assms(2) by (auto simp: valid_name_def)
  then show ?thesis
  proof cases
    case skip
    then have "norm_step al acc c = acc" by (auto simp: norm_step_def)
    with assms(1) show ?thesis by simp
  next
    case name
    then show ?thesis using norm_form_append [OF assms(1), of "[c]"] by (simp add: norm_step_name)
  next
    case up
    show ?thesis
    proof (cases "names = []")
      case False
      have "last names \<in> set names" using False by simp
      then have "valid_name (last names)" using acc(2) by (simp add: list_all_iff)
      then have "last names \<noteq> ''..''" by (simp add: valid_name_def)
      then have "acc \<noteq> []" "last acc \<noteq> ''..''" using acc(1) False by simp_all
      then have st: "norm_step al acc c = butlast acc" using up by (simp add: norm_step_def)
      have bl: "butlast acc = replicate k ''..'' @ butlast names"
        using acc(1) False by (simp add: butlast_append)
      have "list_all valid_name (butlast names)"
        using acc(2) by (auto simp: list_all_iff dest: in_set_butlastD)
      with bl have "norm_form al (butlast acc)" using acc(3) by (rule norm_formI)
      with st show ?thesis by simp
    next
      case True
      then have a: "acc = replicate k ''..''" using acc by simp
      then have "acc = [] \<or> last acc = ''..''" by (cases k) auto
      then have ns: "norm_step al acc c = (if al then acc @ [''..''] else acc)"
        using up by (auto simp: norm_step_def)
      show ?thesis
      proof (cases al)
        case True
        have "acc @ [''..''] = replicate (Suc k) ''..'' @ []"
          using a by (simp add: replicate_append_same)
        then have "norm_form al (acc @ [''..''])"
          by (rule norm_formI) (simp_all add: True)
        with ns True show ?thesis by simp
      next
        case False
        with ns assms(1) show ?thesis by simp
      qed
    qed
  qed
qed

lemma norm_form_foldl:
  "norm_form al acc \<Longrightarrow> \<forall>c\<in>set cs. CHR ''/'' \<notin> set c \<Longrightarrow> norm_form al (foldl (norm_step al) acc cs)"
  by (induction cs arbitrary: acc) (simp_all add: norm_form_step)

lemma norm_form_nsegs: "norm_form (\<not> isAbsolute p) (nsegs p)"
  unfolding nsegs_def
  by (rule norm_form_foldl) (auto simp: norm_form_Nil dest: str_split_char_elems)

lemma render_props:
  assumes "norm_form (\<not> ab) xs" and "xs \<noteq> []"
  shows "isAbsolute (render ab xs) = ab"
    and "str_split ''/'' (render ab xs) = (if ab then [[]] else []) @ xs"
    and "nsegs (render ab xs) = xs"
    and "render ab xs \<noteq> []"
    and "last (render ab xs) \<noteq> CHR ''/''"
proof -
  have el: "\<forall>x\<in>set xs. x \<noteq> [] \<and> CHR ''/'' \<notin> set x"
    using assms(1) norm_form_elem by blast
  have hd: "hd (array_join ''/'' xs) \<noteq> CHR ''/''"
    using hd_array_join [of xs "''/''"] assms(2) el by (cases xs) (auto simp: neq_Nil_conv)
  have ne: "array_join ''/'' xs \<noteq> []"
    using array_join_not_Nil [of xs "''/''"] assms(2) el by simp
  show abs: "isAbsolute (render ab xs) = ab"
    using hd ne by (auto simp: render_def isAbsolute_def)
  have sp: "str_split ''/'' (array_join ''/'' xs) = xs"
    using str_split_array_join [of xs "CHR ''/''"] assms(2) el by simp
  show segs: "str_split ''/'' (render ab xs) = (if ab then [[]] else []) @ xs"
    using sp str_split_char_append [of "CHR ''/''" "[]" "array_join ''/'' xs"]
    by (simp add: render_def)
  have "foldl (norm_step (\<not> ab)) [] ((if ab then [[]] else []) @ xs) = foldl (norm_step (\<not> ab)) [] xs"
    by (simp add: norm_step_def)
  then show "nsegs (render ab xs) = xs"
    using norm_form_fixpoint [OF assms(1)] by (simp add: nsegs_def abs segs)
  show "render ab xs \<noteq> []" using ne by (simp add: render_def)
  have "last xs \<noteq> []" "CHR ''/'' \<notin> set (last xs)" using el assms(2) by auto
  then have "last (last xs) \<noteq> CHR ''/''" by (metis last_in_set)
  then show "last (render ab xs) \<noteq> CHR ''/''"
    using last_array_join [of xs "''/''"] assms(2) el ne by (simp add: render_def)
qed


lemma path_join_names:
  assumes "p \<noteq> []" and "list_all valid_name ns" and "ns \<noteq> []"
  shows "path_join [p, array_join ''/'' ns] = render (isAbsolute p) (nsegs p @ ns)"
proof -
  let ?s = "array_join ''/'' ns"
  have el: "\<forall>x\<in>set ns. x \<noteq> [] \<and> CHR ''/'' \<notin> set x"
    using assms(2) by (auto simp: list_all_iff valid_name_def)
  have s_ne: "?s \<noteq> []" using array_join_not_Nil [of ns "''/''"] assms(3) el by simp
  have "last (last ns) \<noteq> CHR ''/''" using el assms(3) by (metis last_in_set)
  then have s_last: "last ?s \<noteq> CHR ''/''"
    using last_array_join [of ns "''/''"] assms(3) el by simp
  have segs: "str_split ''/'' (p @ ''/'' @ ?s) = str_split ''/'' p @ ns"
    using str_split_char_append [of "CHR ''/''" p ?s] str_split_array_join [of ns "CHR ''/''"] assms(3) el
    by simp
  have abs: "isAbsolute (p @ ''/'' @ ?s) = isAbsolute p"
    using assms(1) by (simp add: isAbsolute_def)
  have hd: "(hd (p @ ''/'' @ ?s) = CHR ''/'') = isAbsolute p"
    using assms(1) by (simp add: isAbsolute_def)
  have "normalizeString (p @ ''/'' @ ?s) (\<not> isAbsolute p) = array_join ''/'' (nsegs p @ ns)"
    using segs assms(2) by (simp add: normalizeString_def nsegs_def path_sep_def foldl_norm_step_names)
  moreover have "array_join ''/'' (nsegs p @ ns) \<noteq> []"
    using array_join_not_Nil [of "nsegs p @ ns" "''/''"] assms(3) el by simp
  ultimately have "path_normalize (p @ ''/'' @ ?s) = render (isAbsolute p) (nsegs p @ ns)"
    using hd s_last s_ne by (simp add: path_normalize_def Let_def render_def)
  then show ?thesis using assms(1) s_ne by (simp add: path_join_def)
qed

lemma path_join_name:
  "p \<noteq> [] \<Longrightarrow> valid_name v \<Longrightarrow> path_join [p, v] = render (isAbsolute p) (nsegs p @ [v])"
  using path_join_names [of p "[v]"] by simp

lemma path_join_nested:
  assumes "root \<noteq> []" and "valid_name v" and "valid_name b"
  shows "path_join [path_join [root, v], b] = path_join [root, v @ ''/'' @ b]"
proof -
  let ?ab = "isAbsolute root"
  have nf: "norm_form (\<not> ?ab) (nsegs root @ [v])"
    using norm_form_append [OF norm_form_nsegs, of "[v]" root] assms(2) by simp
  note r = render_props [OF nf]
  have "path_join [path_join [root, v], b] = render ?ab ((nsegs root @ [v]) @ [b])"
    using path_join_name [of "render ?ab (nsegs root @ [v])" b] r assms
    by (simp add: path_join_name)
  also have "\<dots> = path_join [root, array_join ''/'' [v, b]]"
    using path_join_names [of root "[v, b]"] assms by simp
  finally show ?thesis by simp
qed

subsection \<open>Resolving paths\<close>

lemma walk_append:
  "walk fs cur (xs @ ys) = (case walk fs cur xs of None \<Rightarrow> None | Some m \<Rightarrow> walk fs m ys)"
  by (induction fs cur xs rule: walk.induct) simp_all

lemma walk_name:
  "valid_name v \<Longrightarrow>
     walk fs cur [v] =
       (if get_node fs cur = Some Directory \<and> get_node fs (cur @ [v]) \<noteq> None
        then Some (cur @ [v]) else None)"
  by (simp add: valid_name_def)

lemma walk_Cons_Some:
  assumes "walk fs cur (c # cs) = Some r"
  shows "get_node fs cur = Some Directory"
  using assms by (simp split: if_splits)

lemma walk_norm_step:
  assumes inv: "\<forall>x\<in>set acc. x \<noteq> [] \<and> x \<noteq> ''.''"
    and al: "\<not> al \<longrightarrow> ''..'' \<notin> set acc \<and> start = []"
    and acc: "walk fs start acc = Some pos"
    and dir: "get_node fs pos = Some Directory"
    and step: "walk fs pos [c] = Some pos'"
  shows "walk fs start (norm_step al acc c) = Some pos'"
proof -
  consider (skip) "c = [] \<or> c = ''.''" | (up) "c = ''..''" | (name) "c \<noteq> []" "c \<noteq> ''.''" "c \<noteq> ''..''"
    by blast
  then show ?thesis
  proof cases
    case skip
    then have "pos' = pos" using step dir by auto
    moreover have "norm_step al acc c = acc" using skip by (auto simp: norm_step_def)
    ultimately show ?thesis using acc by simp
  next
    case name
    then have "norm_step al acc c = acc @ [c]" by (simp add: norm_step_def)
    then show ?thesis using acc step by (simp add: walk_append)
  next
    case up
    then have p': "pos' = butlast pos" using step dir by simp
    show ?thesis
    proof (cases "acc \<noteq> [] \<and> last acc \<noteq> ''..''")
      case True
      then obtain acc0 n where a: "acc = acc0 @ [n]" "n \<noteq> ''..''"
        by (metis append_butlast_last_id)
      have n: "n \<noteq> []" "n \<noteq> ''.''" using inv a by auto
      obtain pos0 where p0: "walk fs start acc0 = Some pos0" "walk fs pos0 [n] = Some pos"
        using acc a by (auto simp: walk_append split: option.splits)
      have "pos = pos0 @ [n]" using p0(2) n a(2) by (simp split: if_splits)
      then have "butlast pos = pos0" by simp
      moreover have "norm_step al acc c = acc0" using up True a by (simp add: norm_step_def)
      ultimately show ?thesis using p0(1) p' by simp
    next
      case False
      show ?thesis
      proof (cases al)
        case True
        then have "norm_step al acc c = acc @ [''..'']" using up False by (auto simp: norm_step_def)
        then show ?thesis using acc dir p' by (simp add: walk_append)
      next
        case nal: False
        then have st: "start = []" and nd: "''..'' \<notin> set acc" using al by auto
        have "acc = [] \<or> last acc = ''..''" using False by blast
        with nd have "acc = []" by (metis last_in_set)
        note \<open>acc = []\<close> st
        then have "pos = []" using acc by simp
        moreover have "norm_step al acc c = acc" using up False nal by (auto simp: norm_step_def)
        ultimately show ?thesis using acc p' by simp
      qed
    qed
  qed
qed

lemma norm_step_inv:
  assumes "\<forall>x\<in>set acc. x \<noteq> [] \<and> x \<noteq> ''.''" and "\<not> al \<longrightarrow> ''..'' \<notin> set acc"
  shows "(\<forall>x\<in>set (norm_step al acc c). x \<noteq> [] \<and> x \<noteq> ''.'') \<and> (\<not> al \<longrightarrow> ''..'' \<notin> set (norm_step al acc c))"
  using assms by (auto simp: norm_step_def dest: in_set_butlastD)

lemma walk_foldl_norm_step:
  assumes "\<forall>x\<in>set acc. x \<noteq> [] \<and> x \<noteq> ''.''"
    and "\<not> al \<longrightarrow> ''..'' \<notin> set acc \<and> start = []"
    and "walk fs start acc = Some pos"
    and "walk fs pos cs = Some r"
  shows "walk fs start (foldl (norm_step al) acc cs) = Some r"
  using assms
proof (induction cs arbitrary: acc pos)
  case Nil
  then show ?case by simp
next
  case (Cons c cs)
  have dir: "get_node fs pos = Some Directory"
    using Cons.prems(4) by (rule walk_Cons_Some)
  obtain pos' where p': "walk fs pos [c] = Some pos'" "walk fs pos' cs = Some r"
    using Cons.prems(4) walk_append [of fs pos "[c]" cs] by (auto split: option.splits)
  have w: "walk fs start (norm_step al acc c) = Some pos'"
    using walk_norm_step [OF Cons.prems(1,2,3) dir p'(1)] .
  have inv: "\<forall>x\<in>set (norm_step al acc c). x \<noteq> [] \<and> x \<noteq> ''.''"
    "\<not> al \<longrightarrow> ''..'' \<notin> set (norm_step al acc c) \<and> start = []"
    using norm_step_inv [of acc al c] Cons.prems(1,2) by auto
  show ?case using Cons.IH [OF inv w p'(2)] by simp
qed

lemma resolve_walk_nsegs:
  assumes "resolve w p = Some r"
  shows "walk (files w) (start_dir w p) (nsegs p) = Some r"
proof -
  have "walk (files w) (start_dir w p) (str_split ''/'' p) = Some r"
    using assms by (simp add: resolve_def split: if_splits)
  then show ?thesis
    unfolding nsegs_def
    by (intro walk_foldl_norm_step [where pos = "start_dir w p"]) (auto simp: start_dir_def)
qed

lemma resolve_render:
  assumes "norm_form (\<not> ab) xs" and "xs \<noteq> []"
  shows "resolve w (render ab xs) = walk (files w) (if ab then [] else cwd w) xs"
proof -
  note r = render_props [OF assms]
  show ?thesis
    using r(1,2,4) by (simp add: resolve_def start_dir_def get_node_def)
qed

lemma resolve_join_names:
  assumes "resolve w p = Some r" and "list_all valid_name ns" and "ns \<noteq> []"
  shows "resolve w (path_join [p, array_join ''/'' ns]) = walk (files w) r ns"
proof -
  have p: "p \<noteq> []" using assms(1) by (auto simp: resolve_def)
  have nf: "norm_form (\<not> isAbsolute p) (nsegs p @ ns)"
    using norm_form_append [OF norm_form_nsegs assms(2)] .
  have "resolve w (path_join [p, array_join ''/'' ns]) =
          walk (files w) (start_dir w p) (nsegs p @ ns)"
    using resolve_render [OF nf] assms(3) path_join_names [OF p assms(2,3)]
    by (simp add: start_dir_def)
  then show ?thesis using resolve_walk_nsegs [OF assms(1)] by (simp add: walk_append)
qed

lemma resolve_join_name:
  assumes "resolve w p = Some r" and "valid_name v"
  shows "resolve w (path_join [p, v]) =
           (if get_node (files w) r = Some Directory \<and> get_node (files w) (r @ [v]) \<noteq> None
            then Some (r @ [v]) else None)"
proof -
  have "resolve w (path_join [p, v]) = walk (files w) r [v]"
    using resolve_join_names [OF assms(1), of "[v]"] assms(2) by (simp del: walk.simps)
  then show ?thesis by (simp only: walk_name [OF assms(2)])
qed

subsection \<open>Well-formed file systems and the listing\<close>

lemma wf_files_entry:
  assumes "wf_files fs" and "(k, n) \<in> set fs"
  shows "k \<noteq> []" "list_all valid_name k" "get_node fs (butlast k) = Some Directory" "map_of fs k = Some n"
  using assms by (auto simp: wf_files_def list_all_iff)

lemma get_node_SomeD:
  assumes "get_node fs loc = Some n" and "loc \<noteq> []"
  shows "(loc, n) \<in> set fs"
  using assms by (auto simp: get_node_def dest: map_of_SomeD)

lemma children_iff:
  "v \<in> set (children fs loc) \<longleftrightarrow> get_node fs (loc @ [v]) \<noteq> None"
proof
  assume "v \<in> set (children fs loc)"
  then obtain k n where kn: "(k, n) \<in> set fs" "k \<noteq> []" "butlast k = loc" "last k = v"
    by (auto simp: children_def)
  then have "k = loc @ [v]" by (metis append_butlast_last_id)
  with kn(1) have "loc @ [v] \<in> fst ` set fs" by force
  then show "get_node fs (loc @ [v]) \<noteq> None"
    by (simp add: get_node_def map_of_eq_None_iff)
next
  assume "get_node fs (loc @ [v]) \<noteq> None"
  then obtain n where "(loc @ [v], n) \<in> set fs"
    using get_node_SomeD [of fs "loc @ [v]"] by auto
  then show "v \<in> set (children fs loc)"
    by (force simp: children_def)
qed

lemma wf_child_valid:
  assumes "wf_files fs" and "get_node fs (loc @ [v]) \<noteq> None"
  shows "valid_name v" and "get_node fs loc = Some Directory"
proof -
  obtain n where n: "(loc @ [v], n) \<in> set fs"
    using assms(2) get_node_SomeD [of fs "loc @ [v]"] by auto
  show "valid_name v" using wf_files_entry(2) [OF assms(1) n] by simp
  show "get_node fs loc = Some Directory" using wf_files_entry(3) [OF assms(1) n] by simp
qed

lemma listInstalled_loop_wf:
  assumes wf: "wf_files (files w)" and r: "resolve w root = Some loc"
    and vs: "\<forall>v\<in>set vs. get_node (files w) (loc @ [v]) \<noteq> None"
  shows "listInstalled_loop w root vs = Inr (listed_entries (files w) root loc vs)"
  using vs
proof (induction vs)
  case Nil
  then show ?case by (simp add: listed_entries_def)
next
  case (Cons v vs)
  have ex: "get_node (files w) (loc @ [v]) \<noteq> None" using Cons.prems by simp
  then obtain n where n: "get_node (files w) (loc @ [v]) = Some n" by auto
  note c = wf_child_valid [OF wf ex]
  have res: "resolve w (path_join [root, v]) = Some (loc @ [v])"
    using resolve_join_name [OF r c(1)] c(2) ex by simp
  have lst: "lstatSync w (path_join [root, v]) = Inr n"
    using res n by (simp add: lstatSync_def)
  have ih: "listInstalled_loop w root vs = Inr (listed_entries (files w) root loc vs)"
    using Cons by simp
  show ?case
  proof (cases "n = Directory")
    case False
    then show ?thesis
      using lst ih n by (simp add: isDirectory_def listed_entries_def)
  next
    case True
    then have "readdirSync w (path_join [root, v]) = Inr (children (files w) (loc @ [v]))"
      using res n by (simp add: readdirSync_def)
    then show ?thesis
      using lst ih n True
      by (simp add: isDirectory_def listed_entries_def dist_entry_def)
  qed
qed

lemma listInstalled_wf:
  assumes "wf_files (files w)" and "resolve w root = Some loc"
    and "get_node (files w) loc = Some Directory"
  shows "listInstalled w root =
           Inr (listed_entries (files w) root loc (children (files w) loc))"
proof -
  have "readdirSync w root = Inr (children (files w) loc)"
    using assms(2,3) by (simp add: readdirSync_def)
  moreover have "listInstalled_loop w root (children (files w) loc) =
      Inr (listed_entries (files w) root loc (children (files w) loc))"
    using assms(1,2) by (intro listInstalled_loop_wf) (simp_all add: children_iff)
  ultimately show ?thesis using assms(2) by (simp add: listInstalled_def existsSync_def)
qed

lemma listed_entries_iff:
  "e \<in> set (listed_entries fs root loc vs) \<longleftrightarrow>
     (\<exists>v b. e = dist_entry root v b \<and> v \<in> set vs \<and> get_node fs (loc @ [v]) = Some Directory
        \<and> get_node fs (loc @ [v, b]) \<noteq> None \<and> startsWith b ''buf-'')"
  using children_iff [of _ fs "loc @ [_]"]
  by (auto simp: listed_entries_def split: if_splits)

lemma listInstalled_InrD:
  assumes "listInstalled w root = Inr listed" and "listed \<noteq> []"
  shows "\<exists>loc. resolve w root = Some loc \<and> get_node (files w) loc = Some Directory"
proof -
  have ex: "existsSync w root"
    using assms by (auto simp: listInstalled_def split: if_splits)
  then obtain loc where loc: "resolve w root = Some loc" by (auto simp: existsSync_def)
  have "\<exists>vs. readdirSync w root = Inr vs"
    using assms ex by (auto simp: listInstalled_def split: sum.splits)
  then have "get_node (files w) loc = Some Directory"
    using loc by (auto simp: readdirSync_def split: if_splits)
  with loc show ?thesis by blast
qed

lemma name_split:
  assumes "CHR ''/'' \<notin> set v"
  shows "takeWhile (\<lambda>c. c \<noteq> CHR ''/'') (v @ ''/'' @ b) = v"
    and "hd (str_split ''/'' (v @ ''/'' @ b)) = v"
    and "drop (Suc (length v)) (v @ ''/'' @ b) = b"
proof -
  show "takeWhile (\<lambda>c. c \<noteq> CHR ''/'') (v @ ''/'' @ b) = v"
    using assms by (induction v) auto
  show "hd (str_split ''/'' (v @ ''/'' @ b)) = v"
    using str_split_char_append [of "CHR ''/''" v b] str_split_char_free [of "CHR ''/''" v] assms
    by simp
  show "drop (Suc (length v)) (v @ ''/'' @ b) = b" by simp
qed

lemma listed_entry_shape:
  assumes wf: "wf_files (files w)" and l: "listInstalled w root = Inr listed" and e: "e \<in> set listed"
  shows "\<exists>loc v b. resolve w root = Some loc \<and> e = dist_entry root v b
           \<and> get_node (files w) (loc @ [v]) = Some Directory
           \<and> get_node (files w) (loc @ [v, b]) \<noteq> None
           \<and> startsWith b ''buf-'' \<and> valid_name v \<and> valid_name b \<and> root \<noteq> []"
proof -
  have "listed \<noteq> []" using e by auto
  then obtain loc where loc: "resolve w root = Some loc" "get_node (files w) loc = Some Directory"
    using listInstalled_InrD [OF l] by blast
  have "listed = listed_entries (files w) root loc (children (files w) loc)"
    using listInstalled_wf [OF wf loc] l by simp
  then obtain v b where vb: "e = dist_entry root v b"
      "get_node (files w) (loc @ [v]) = Some Directory"
      "get_node (files w) (loc @ [v, b]) \<noteq> None" "startsWith b ''buf-''"
    using e by (auto simp: listed_entries_iff)
  have "valid_name v" using wf_child_valid(1) [OF wf, of loc v] vb(2) by simp
  moreover have "valid_name b" using wf_child_valid(1) [OF wf, of "loc @ [v]" b] vb(3) by simp
  moreover have "root \<noteq> []" using loc(1) by (auto simp: resolve_def)
  ultimately show ?thesis using loc(1) vb by blast
qed

lemma listed_entry_unique:
  assumes wf: "wf_files (files w)" and l: "listInstalled w root = Inr listed"
    and e: "e \<in> set listed" and e': "e' \<in> set listed" and n: "name e = name e'"
  shows "e = e'"
proof -
  obtain v b where vb: "e = dist_entry root v b" "valid_name v"
    using listed_entry_shape [OF wf l e] by blast
  obtain v' b' where vb': "e' = dist_entry root v' b'" "valid_name v'"
    using listed_entry_shape [OF wf l e'] by blast
  have eq: "v @ ''/'' @ b = v' @ ''/'' @ b'" using n vb(1) vb'(1) by (simp add: dist_entry_def)
  have s: "CHR ''/'' \<notin> set v" "CHR ''/'' \<notin> set v'" using vb(2) vb'(2) by (simp_all add: valid_name_def)
  have "v = v'" using name_split(1) [OF s(1), of b] name_split(1) [OF s(2), of b'] eq by simp
  then show ?thesis using eq vb(1) vb'(1) by simp
qed

text \<open>
  Claim C7. When the install directory does not exist, \<open>listInstalled\<close> returns the empty list
  and does not throw. When it is a directory of a well-formed file system, \<open>listInstalled\<close>
  returns a list, and the list has an entry with version \<open>v\<close> and name \<open>v/b\<close> exactly when \<open>v\<close>
  is a directory in the install directory, \<open>b\<close> is in that directory, and \<open>b\<close> begins with \<open>buf-\<close>:
  what is not a directory in the install directory gives no entry.
\<close>

theorem listInstalled_contents:
  "(\<not> existsSync w root \<longrightarrow> listInstalled w root = Inr [])
   \<and> (wf_files (files w) \<and> resolve w root = Some loc \<and> get_node (files w) loc = Some Directory \<longrightarrow>
        (\<exists>listed. listInstalled w root = Inr listed
           \<and> (\<forall>v b. (\<exists>e\<in>set listed. DistEntry.version e = v \<and> name e = v @ ''/'' @ b)
                 \<longleftrightarrow> (get_node (files w) (loc @ [v]) = Some Directory
                      \<and> get_node (files w) (loc @ [v, b]) \<noteq> None \<and> startsWith b ''buf-''))))"
proof (intro conjI impI)
  show "listInstalled w root = Inr []" if "\<not> existsSync w root"
    using that by (simp add: listInstalled_def)
next
  assume a: "wf_files (files w) \<and> resolve w root = Some loc \<and> get_node (files w) loc = Some Directory"
  let ?listed = "listed_entries (files w) root loc (children (files w) loc)"
  have l: "listInstalled w root = Inr ?listed" using listInstalled_wf a by blast
  have "(\<exists>e\<in>set ?listed. DistEntry.version e = v \<and> name e = v @ ''/'' @ b)
          \<longleftrightarrow> (get_node (files w) (loc @ [v]) = Some Directory
               \<and> get_node (files w) (loc @ [v, b]) \<noteq> None \<and> startsWith b ''buf-'')" for v b
  proof
    assume "\<exists>e\<in>set ?listed. DistEntry.version e = v \<and> name e = v @ ''/'' @ b"
    then obtain e where e: "e \<in> set ?listed" "DistEntry.version e = v" "name e = v @ ''/'' @ b"
      by blast
    from e(1) obtain v' b' where vb: "e = dist_entry root v' b'"
        "get_node (files w) (loc @ [v']) = Some Directory"
        "get_node (files w) (loc @ [v', b']) \<noteq> None" "startsWith b' ''buf-''"
      unfolding listed_entries_iff by blast
    have "v' = v" using e(2) vb(1) by (simp add: dist_entry_def)
    moreover have "b' = b" using e(3) vb(1) \<open>v' = v\<close> by (simp add: dist_entry_def)
    ultimately show "get_node (files w) (loc @ [v]) = Some Directory
               \<and> get_node (files w) (loc @ [v, b]) \<noteq> None \<and> startsWith b ''buf-''"
      using vb by simp
  next
    assume r: "get_node (files w) (loc @ [v]) = Some Directory
               \<and> get_node (files w) (loc @ [v, b]) \<noteq> None \<and> startsWith b ''buf-''"
    then have "v \<in> set (children (files w) loc)" by (simp add: children_iff)
    with r have "dist_entry root v b \<in> set ?listed" by (auto simp: listed_entries_iff)
    then show "\<exists>e\<in>set ?listed. DistEntry.version e = v \<and> name e = v @ ''/'' @ b"
      by (auto simp: dist_entry_def intro!: bexI [of _ "dist_entry root v b"])
  qed
  with l show "\<exists>listed. listInstalled w root = Inr listed
           \<and> (\<forall>v b. (\<exists>e\<in>set listed. DistEntry.version e = v \<and> name e = v @ ''/'' @ b)
                 \<longleftrightarrow> (get_node (files w) (loc @ [v]) = Some Directory
                      \<and> get_node (files w) (loc @ [v, b]) \<noteq> None \<and> startsWith b ''buf-''))"
    by blast
qed

text \<open>
  Claim C10. Every entry that \<open>listInstalled\<close> returns on a well-formed file system has as
  version the name of a directory in the install directory; its name is the version, \<open>/\<close> and
  the name \<open>b\<close> of an object of that directory that begins with \<open>buf-\<close>; its \<open>bufPath\<close> is the
  install directory joined with its name; and its version is the first segment of its name.
\<close>

theorem listInstalled_entry_shape:
  assumes "wf_files (files w)" and "listInstalled w root = Inr listed" and "e \<in> set listed"
  shows "\<exists>loc b. resolve w root = Some loc
           \<and> get_node (files w) (loc @ [DistEntry.version e]) = Some Directory
           \<and> get_node (files w) (loc @ [DistEntry.version e, b]) \<noteq> None
           \<and> startsWith b ''buf-''
           \<and> name e = DistEntry.version e @ ''/'' @ b
           \<and> bufPath e = path_join [root, name e]
           \<and> hd (str_split ''/'' (name e)) = DistEntry.version e"
proof -
  obtain loc v b where s: "resolve w root = Some loc" "e = dist_entry root v b"
      "get_node (files w) (loc @ [v]) = Some Directory"
      "get_node (files w) (loc @ [v, b]) \<noteq> None"
      "startsWith b ''buf-''" "valid_name v" "valid_name b" "root \<noteq> []"
    using listed_entry_shape [OF assms] by blast
  have "bufPath e = path_join [root, name e]"
    using path_join_nested [OF s(8,6,7)] s(2) by (simp add: dist_entry_def)
  moreover have "hd (str_split ''/'' (name e)) = DistEntry.version e"
    using name_split(2) [of v b] s(2,6) by (simp add: dist_entry_def valid_name_def)
  moreover have "name e = DistEntry.version e @ ''/'' @ b" "DistEntry.version e = v"
    using s(2) by (simp_all add: dist_entry_def)
  ultimately show ?thesis using s(1,3,4,5) by blast
qed

text \<open>
  Claim C2. For a version other than \<open>latest\<close>: when the listing of the install directory has
  an entry whose name is the release name of the host and the version, \<open>ensureInstalled\<close>
  resolves with an entry of the listing that has this name, and the state is unchanged, so
  nothing was requested and nothing written. On a well-formed file system the listing has one
  entry of that name, and \<open>ensureInstalled\<close> resolves with it.
\<close>

theorem ensureInstalled_cache_hit:
  assumes "v \<noteq> ''latest''"
    and "makeReleaseName \<lparr>platform = os_platform h, arch = os_arch h, version = v\<rparr> = Inr rn"
    and "listInstalled w (standardInstallDirectory h) = Inr listed"
    and "e \<in> set listed" and "name e = rn"
  shows "(\<exists>e'. ensureInstalled h w (Some v) = (Resolved e', w) \<and> e' \<in> set listed \<and> name e' = rn)
       \<and> (wf_files (files w) \<longrightarrow> ensureInstalled h w (Some v) = (Resolved e, w))"
proof -
  have "find (\<lambda>i. name i = rn) listed \<noteq> None"
    using assms(4,5) by (auto simp: find_None_iff)
  then obtain e' where f: "find (\<lambda>i. name i = rn) listed = Some e'" by auto
  then have e': "e' \<in> set listed" "name e' = rn" using find_Some_set [OF f] by simp_all
  have r: "ensureInstalled h w (Some v) = (Resolved e', w)"
    using assms(1,2,3) f by (simp add: ensureInstalled_def resolveVersion_def)
  have "e' = e" if "wf_files (files w)"
    using listed_entry_unique [OF that assms(3) e'(1) assms(4)] e'(2) assms(5) by simp
  with r e' show ?thesis by blast
qed

subsection \<open>Creating and writing\<close>


























lemma ex_saved_list:
  "listInstalled saved_world (standardInstallDirectory (example_host latest_table)) = Inr [cached_entry]"
  by code_simp



lemma ex_wf_installed: "wf_files (files installed_world)"
  by code_simp

lemma ex_installed_resolve:
  "resolve installed_world ''/opt/bufbuild/installed'' = Some [''opt'', ''bufbuild'', ''installed'']
   \<and> get_node (files installed_world) [''opt'', ''bufbuild'', ''installed''] = Some Directory"
  by code_simp

lemma ex_installed_list:
  "listInstalled installed_world ''/opt/bufbuild/installed'' = Inr [cached_entry]"
  by code_simp

lemma ex_installed_list_std:
  "listInstalled installed_world (standardInstallDirectory (example_host latest_table)) = Inr [cached_entry]"
  by code_simp

lemma ex_missing_root: "\<not> existsSync empty_world ''/opt/bufbuild/installed''"
  by code_simp

theorem listInstalled_contents_witness:
  "listInstalled empty_world ''/opt/bufbuild/installed'' = Inr []
   \<and> listInstalled installed_world ''/opt/bufbuild/installed'' = Inr [cached_entry]
   \<and> get_node (files installed_world) [''opt'', ''bufbuild'', ''installed'', ''README''] = Some (File [7])
   \<and> get_node (files installed_world) [''opt'', ''bufbuild'', ''installed'', ''1.6.0'', ''notes.txt''] = Some (File [])
   \<and> (\<exists>listed. listInstalled installed_world ''/opt/bufbuild/installed'' = Inr listed
        \<and> (\<forall>v b. (\<exists>e\<in>set listed. DistEntry.version e = v \<and> name e = v @ ''/'' @ b)
              \<longleftrightarrow> (get_node (files installed_world) ([''opt'', ''bufbuild'', ''installed''] @ [v]) = Some Directory
                   \<and> get_node (files installed_world) ([''opt'', ''bufbuild'', ''installed''] @ [v, b]) \<noteq> None
                   \<and> startsWith b ''buf-'')))"
proof -
  have a: "listInstalled empty_world ''/opt/bufbuild/installed'' = Inr []"
    using listInstalled_contents [of empty_world "''/opt/bufbuild/installed''", THEN conjunct1]
      ex_missing_root by blast
  have b: "\<exists>listed. listInstalled installed_world ''/opt/bufbuild/installed'' = Inr listed
        \<and> (\<forall>v b. (\<exists>e\<in>set listed. DistEntry.version e = v \<and> name e = v @ ''/'' @ b)
              \<longleftrightarrow> (get_node (files installed_world) ([''opt'', ''bufbuild'', ''installed''] @ [v]) = Some Directory
                   \<and> get_node (files installed_world) ([''opt'', ''bufbuild'', ''installed''] @ [v, b]) \<noteq> None
                   \<and> startsWith b ''buf-''))"
    using listInstalled_contents [of installed_world "''/opt/bufbuild/installed''"
        "[''opt'', ''bufbuild'', ''installed'']", THEN conjunct2]
      ex_wf_installed ex_installed_resolve by blast
  have c: "get_node (files installed_world) [''opt'', ''bufbuild'', ''installed'', ''README''] = Some (File [7])"
    "get_node (files installed_world) [''opt'', ''bufbuild'', ''installed'', ''1.6.0'', ''notes.txt''] = Some (File [])"
    by code_simp+
  show ?thesis using a b c ex_installed_list by blast
qed

lemma ex_cached_in: "cached_entry \<in> set [cached_entry]"
  by simp

theorem listInstalled_entry_shape_witness:
  "\<exists>loc b. resolve installed_world ''/opt/bufbuild/installed'' = Some loc
           \<and> get_node (files installed_world) (loc @ [DistEntry.version cached_entry]) = Some Directory
           \<and> get_node (files installed_world) (loc @ [DistEntry.version cached_entry, b]) \<noteq> None
           \<and> startsWith b ''buf-''
           \<and> name cached_entry = DistEntry.version cached_entry @ ''/'' @ b
           \<and> bufPath cached_entry = path_join [''/opt/bufbuild/installed'', name cached_entry]
           \<and> hd (str_split ''/'' (name cached_entry)) = DistEntry.version cached_entry"
  using listInstalled_entry_shape [OF ex_wf_installed ex_installed_list ex_cached_in] .

lemma ex_119: "''1.6.0'' \<noteq> ''latest''"
  by simp

lemma ex_host_name:
  "makeReleaseName \<lparr>platform = os_platform (example_host latest_table),
      arch = os_arch (example_host latest_table), version = ''1.6.0''\<rparr> =
     Inr ''1.6.0/buf-Darwin-arm64''"
  by code_simp

lemma ex_cached_name: "name cached_entry = ''1.6.0/buf-Darwin-arm64''"
  by (simp add: cached_entry_def)

theorem ensureInstalled_cache_hit_witness:
  "ensureInstalled (example_host latest_table) installed_world (Some ''1.6.0'') =
     (Resolved cached_entry, installed_world)"
  using ensureInstalled_cache_hit [OF ex_119 ex_host_name ex_installed_list_std ex_cached_in
      ex_cached_name, THEN conjunct2] ex_wf_installed
  by blast

end
